theory Spec2Isabelle
  imports
    Complex_Main
    "HOL-Library.AList"
    "HOL-Library.Char_ord"
    "HOL-Library.List_Lexorder"
begin

section \<open>Python dictionaries\<close>

text \<open>
  A Python \<open>dict\<close> keeps its keys in insertion order and holds each key once. It is an
  association list here; \<open>is_dict\<close> says that the keys are pairwise different, which
  the Python type guarantees. Floats are modelled as real numbers throughout (rounding is
  not modelled).
\<close>

type_synonym ('k, 'v) dict = "('k \<times> 'v) list"

definition is_dict :: "('k, 'v) dict \<Rightarrow> bool" where
  "is_dict d = distinct (map fst d)"

definition keys :: "('k, 'v) dict \<Rightarrow> 'k list" where
  "keys d = map fst d"

definition dict_values :: "('k, 'v) dict \<Rightarrow> 'v list" where
  "dict_values d = map snd d"

text \<open>\<open>d.get(k, dflt)\<close>\<close>

definition dict_get :: "('k, 'v) dict \<Rightarrow> 'k \<Rightarrow> 'v \<Rightarrow> 'v" where
  "dict_get d k dflt = (case map_of d k of None \<Rightarrow> dflt | Some v \<Rightarrow> v)"

text \<open>\<open>d[k] = v\<close>: an existing key keeps its place, a new key goes last.\<close>

definition dict_set :: "('k, 'v) dict \<Rightarrow> 'k \<Rightarrow> 'v \<Rightarrow> ('k, 'v) dict" where
  "dict_set d k v = AList.update k v d"

type_synonym term_table = "(string, int) dict"

section \<open>Python strings\<close>

text \<open>
  A \<open>char\<close> stands for the Unicode code point of the same number, so the model covers
  text over U+0000..U+00FF (Latin-1), which holds the whole alphabet the normalizer keeps.
  On that range \<open>str.lower\<close> adds 32 to \<open>A-Z\<close>, to U+00C0..U+00D6 and to
  U+00D8..U+00DE (it sets the bit of weight 32) and keeps the length of the string.
\<close>

definition is_upper :: "char \<Rightarrow> bool" where
  "is_upper c =
     (let n = (of_char c :: nat)
      in (65 \<le> n \<and> n \<le> 90) \<or> (192 \<le> n \<and> n \<le> 222 \<and> n \<noteq> 215))"

definition lower_char :: "char \<Rightarrow> char" where
  "lower_char c =
     (if is_upper c
      then (case c of Char b0 b1 b2 b3 b4 b5 b6 b7 \<Rightarrow> Char b0 b1 b2 b3 b4 True b6 b7)
      else c)"

definition lower :: "string \<Rightarrow> string" where
  "lower s = map lower_char s"

text \<open>\<open>str.isspace\<close>, which is also the class \<open>\s\<close> of \<open>re\<close>, on U+0000..U+00FF.\<close>

definition isspace :: "char \<Rightarrow> bool" where
  "isspace c =
     (c \<in> set [CHR 0x09, CHR 0x0A, CHR 0x0B, CHR 0x0C, CHR 0x0D, CHR 0x1C, CHR 0x1D,
                CHR 0x1E, CHR 0x1F, CHR 0x20, CHR 0x85, CHR 0xA0])"

text \<open>
  The class \<open>\w\<close> of \<open>re\<close> on U+0000..U+00FF: the characters with
  \<open>str.isalnum\<close>, and the underscore.
\<close>

definition is_word_char :: "char \<Rightarrow> bool" where
  "is_word_char c =
     (let n = (of_char c :: nat)
      in (48 \<le> n \<and> n \<le> 57) \<or> (65 \<le> n \<and> n \<le> 90) \<or> n = 95 \<or> (97 \<le> n \<and> n \<le> 122)
         \<or> n = 170 \<or> n = 178 \<or> n = 179 \<or> n = 181 \<or> n = 185 \<or> n = 186
         \<or> (188 \<le> n \<and> n \<le> 190) \<or> (192 \<le> n \<and> n \<le> 214) \<or> (216 \<le> n \<and> n \<le> 246)
         \<or> (248 \<le> n \<and> n \<le> 255))"

text \<open>\<open>s.split()\<close>: the maximal runs of characters that are not whitespace.\<close>

fun split_acc :: "string \<Rightarrow> string \<Rightarrow> string list" where
  "split_acc cur [] = (if cur = [] then [] else [cur])"
| "split_acc cur (c # cs) =
     (if isspace c then (if cur = [] then split_acc [] cs else cur # split_acc [] cs)
      else split_acc (cur @ [c]) cs)"

definition split :: "string \<Rightarrow> string list" where
  "split s = split_acc [] s"

text \<open>\<open>s.strip()\<close>\<close>

definition strip :: "string \<Rightarrow> string" where
  "strip s = rev (dropWhile isspace (rev (dropWhile isspace s)))"

text \<open>\<open>s.find(' ', start)\<close>: the first index from \<open>start\<close> on that holds a space.\<close>

definition find_space :: "string \<Rightarrow> nat \<Rightarrow> nat option" where
  "find_space s start =
     (case dropWhile (\<lambda>i. s ! i \<noteq> CHR 0x20) [start..<length s] of
        [] \<Rightarrow> None
      | i # _ \<Rightarrow> Some i)"

section \<open>The text normalizer (preprocessing.py)\<close>

text \<open>
  The stop word list (\<open>app.utils.constants.STOPWORDS\<close>), the RSLP stemmer of NLTK and
  the spaCy pipeline are not part of the sources; they are fields of the service, as in
  the class. A spaCy token is the four attributes the code reads.
\<close>

record token =
  tok_text :: string
  tok_lemma :: string
  is_alpha :: bool
  is_stop :: bool

record preprocessing =
  use_spacy :: bool
  nlp :: "(string \<Rightarrow> token list) option"
  stemmer :: "(string \<Rightarrow> string) option"
  stopwords :: "string list"
  lematizadas_corrigidas :: "(string, string) dict"

text \<open>The characters of the class \<open>[a-z...]\<close> of both regular expressions.\<close>

definition alphabet :: "char list" where
  "alphabet =
     ''abcdefghijklmnopqrstuvwxyz'' @
     [CHR 0xE1, CHR 0xE9, CHR 0xED, CHR 0xF3, CHR 0xFA, CHR 0xE2, CHR 0xEA, CHR 0xEE,
      CHR 0xF4, CHR 0xFB, CHR 0xE3, CHR 0xF5, CHR 0xE7]"

text \<open>\<open>re.sub(r'\s+', ' ', s)\<close>: every maximal run of whitespace becomes one space.\<close>

fun collapse_from :: "bool \<Rightarrow> string \<Rightarrow> string" where
  "collapse_from in_run [] = []"
| "collapse_from in_run (c # cs) =
     (if isspace c
      then (if in_run then collapse_from True cs else CHR 0x20 # collapse_from True cs)
      else c # collapse_from False cs)"

definition collapse_ws :: "string \<Rightarrow> string" where
  "collapse_ws s = collapse_from False s"

text \<open>
  \<open>clean_text\<close>: a character outside the alphabet and the space is replaced by a space.
\<close>

definition clean_text :: "string \<Rightarrow> string" where
  "clean_text text =
     strip (collapse_ws
       (map (\<lambda>c. if c \<in> set alphabet \<or> c = CHR 0x20 then c else CHR 0x20) (lower text)))"

text \<open>\<open>normalize_term\<close>: a character outside the alphabet is deleted.\<close>

definition normalize_term :: "string \<Rightarrow> string" where
  "normalize_term term = filter (\<lambda>c. c \<in> set alphabet) (strip (lower term))"

text \<open>\<open>termos[t] = termos.get(t, 0) + 1\<close>\<close>

definition count_term :: "term_table \<Rightarrow> string \<Rightarrow> term_table" where
  "count_term termos t = dict_set termos t (dict_get termos t 0 + 1)"

definition process_text :: "preprocessing \<Rightarrow> string \<Rightarrow> term_table" where
  "process_text p text =
     (let texto_limpo = clean_text text in
      if use_spacy p \<and> nlp p \<noteq> None then
        foldl (\<lambda>termos tk.
                 if is_alpha tk \<and> \<not> is_stop tk \<and> tok_text tk \<notin> set (stopwords p)
                 then count_term termos
                        (dict_get (lematizadas_corrigidas p) (tok_text tk) (tok_lemma tk))
                 else termos)
          [] (the (nlp p) texto_limpo)
      else
        foldl (\<lambda>termos palavra.
                 let palavra_normalizada = normalize_term palavra in
                 if length palavra_normalizada > 2 \<and> palavra_normalizada \<notin> set (stopwords p)
                 then count_term termos
                        (case map_of (lematizadas_corrigidas p) palavra_normalizada of
                           Some corrigida \<Rightarrow> corrigida
                         | None \<Rightarrow>
                             (case stemmer p of
                                Some stem \<Rightarrow> stem palavra_normalizada
                              | None \<Rightarrow> palavra_normalizada))
                 else termos)
          [] (split texto_limpo))"

definition process_query :: "preprocessing \<Rightarrow> string \<Rightarrow> string list" where
  "process_query p query =
     (let termos = split (lower query) in
      if use_spacy p \<and> nlp p \<noteq> None then
        concat (map (\<lambda>termo.
                  map (\<lambda>tk. dict_get (lematizadas_corrigidas p) (tok_text tk) (tok_lemma tk))
                    (filter (\<lambda>tk. is_alpha tk \<and> \<not> is_stop tk) (the (nlp p) termo)))
                termos)
      else
        concat (map (\<lambda>termo.
                  let termo_limpo = normalize_term termo in
                  if length termo_limpo > 2 \<and> termo_limpo \<notin> set (stopwords p)
                  then [case map_of (lematizadas_corrigidas p) termo_limpo of
                          Some corrigida \<Rightarrow> corrigida
                        | None \<Rightarrow>
                            (case stemmer p of
                               Some stem \<Rightarrow> stem termo_limpo
                             | None \<Rightarrow> termo_limpo)]
                  else [])
                termos))"

section \<open>The snippet extractor (utils/text\_processing.py)\<close>

subsection \<open>What it uses of \<open>re\<close> and \<open>difflib\<close>\<close>

text \<open>
  \<open>\b\<close> holds at index \<open>i\<close> when exactly one of the characters before and after
  the index is a word character (the ends of the string count as none).
\<close>

definition word_boundary :: "string \<Rightarrow> nat \<Rightarrow> bool" where
  "word_boundary s i =
     ((0 < i \<and> i \<le> length s \<and> is_word_char (s ! (i - 1))) \<noteq>
      (i < length s \<and> is_word_char (s ! i)))"

text \<open>A match object: where the match starts (\<open>start()\<close>) and its text (\<open>group()\<close>).\<close>

type_synonym re_match = "nat \<times> string"

text \<open>
  \<open>re.search(r'\b' + re.escape(w) + r'\b', s)\<close>: the leftmost occurrence of \<open>w\<close> in
  \<open>s\<close> with a word boundary on both sides.
\<close>

definition search_word :: "string \<Rightarrow> string \<Rightarrow> re_match option" where
  "search_word w s =
     map_option (\<lambda>i. (i, w))
       (find (\<lambda>i. take (length w) (drop i s) = w \<and> word_boundary s i
                    \<and> word_boundary s (i + length w))
          [0..<Suc (length s)])"

text \<open>\<open>re.findall(r'\b\w+\b', s)\<close>: the maximal runs of word characters, in order.\<close>

fun words_acc :: "string \<Rightarrow> string \<Rightarrow> string list" where
  "words_acc cur [] = (if cur = [] then [] else [cur])"
| "words_acc cur (c # cs) =
     (if is_word_char c then words_acc (cur @ [c]) cs
      else (if cur = [] then words_acc [] cs else cur # words_acc [] cs))"

definition findall_words :: "string \<Rightarrow> string list" where
  "findall_words s = words_acc [] s"

text \<open>
  \<open>difflib.SequenceMatcher(None, a, b).ratio()\<close> is the standard library's; the model
  follows its algorithm for a second string shorter than 200 characters (no element is
  then set aside as popular, and there is no junk). \<open>find_longest_match\<close> returns the
  longest block common to both strings; among the longest, the one that starts earliest
  in \<open>a\<close>, and among those the one that starts earliest in \<open>b\<close>.
  \<open>get_matching_blocks\<close> takes that block and goes on to the left and to the right of it;
  \<open>ratio\<close> is \<open>2.0 * matches / (len(a) + len(b))\<close>, and \<open>1.0\<close> for two empty strings.
\<close>

fun common_prefix :: "'a list \<Rightarrow> 'a list \<Rightarrow> nat" where
  "common_prefix (x # xs) (y # ys) = (if x = y then Suc (common_prefix xs ys) else 0)"
| "common_prefix _ _ = 0"

definition longest_step ::
  "string \<Rightarrow> string \<Rightarrow> nat \<times> nat \<times> nat \<Rightarrow> nat \<times> nat \<Rightarrow> nat \<times> nat \<times> nat" where
  "longest_step a b best ij =
     (case best of
        (besti, bestj, bestsize) \<Rightarrow>
          (case ij of
             (i, j) \<Rightarrow>
               let k = common_prefix (drop i a) (drop j b)
               in if k > bestsize then (i, j, k) else (besti, bestj, bestsize)))"

definition find_longest_match :: "string \<Rightarrow> string \<Rightarrow> nat \<times> nat \<times> nat" where
  "find_longest_match a b =
     foldl (longest_step a b) (0, 0, 0) (List.product [0..<length a] [0..<length b])"

text \<open>The total size of the matching blocks.\<close>

function matching_size :: "string \<Rightarrow> string \<Rightarrow> nat" where
  "matching_size a b =
     (case find_longest_match a b of
        (i, j, k) \<Rightarrow>
          if k = 0 then 0
          else k
             + (if 0 < i \<and> 0 < j then matching_size (take i a) (take j b) else 0)
             + (if i + k < length a \<and> j + k < length b
                then matching_size (drop (i + k) a) (drop (j + k) b) else 0))"
  by pat_completeness auto
termination
proof (relation "measure (\<lambda>(a, b). length a)")
  show "wf (measure (\<lambda>(a :: string, b :: string). length a))" by simp
next
  fix a b :: string and i :: nat and y :: "nat \<times> nat" and j k :: nat
  assume y: "(i, y) = find_longest_match a b" and z: "(j, k) = y"
    and k: "k \<noteq> 0" and "0 < i \<and> 0 < j"
  \<comment> \<open>a block that is not empty starts inside \<open>a\<close>\<close>
  have prefix: "common_prefix xs ys \<le> length xs" for xs ys :: string
    by (induction xs ys rule: common_prefix.induct) auto
  have step: "0 < snd (snd (longest_step a b best ij)) \<longrightarrow> fst (longest_step a b best ij) < length a"
    if "0 < snd (snd best) \<longrightarrow> fst best < length a" for best ij
  proof -
    obtain bi bj bk where b: "best = (bi, bj, bk)" by (cases best)
    obtain p q where ij: "ij = (p, q)" by (cases ij)
    have "p < length a \<or> common_prefix (drop p a) (drop q b) = 0"
      using prefix[of "drop p a" "drop q b"] by auto
    then show ?thesis using that b ij by (auto simp: longest_step_def Let_def)
  qed
  have run: "0 < snd (snd (foldl (longest_step a b) best ps))
               \<longrightarrow> fst (foldl (longest_step a b) best ps) < length a"
    if "0 < snd (snd best) \<longrightarrow> fst best < length a" for best ps
    using that
  proof (induction ps arbitrary: best)
    case Nil
    then show ?case by simp
  next
    case (Cons p ps)
    show ?case using Cons.IH[OF step[OF Cons.prems]] by simp
  qed
  have "find_longest_match a b = (i, j, k)" using y z by simp
  then have "i < length a"
    using run[of "(0, 0, 0)" "List.product [0..<length a] [0..<length b]"] k
    by (simp add: find_longest_match_def)
  then show "((take i a, take j b), (a, b)) \<in> measure (\<lambda>(a, b). length a)" by simp
next
  fix a b :: string and i :: nat and y :: "nat \<times> nat" and j k :: nat
  assume "(i, y) = find_longest_match a b" and "(j, k) = y"
    and k: "k \<noteq> 0" and l: "i + k < length a \<and> j + k < length b"
  have "length a - (i + k) < length a" using k l by linarith
  then show "((drop (i + k) a, drop (j + k) b), (a, b)) \<in> measure (\<lambda>(a, b). length a)" by simp
qed

declare matching_size.simps [simp del]

definition seq_ratio :: "string \<Rightarrow> string \<Rightarrow> real" where
  "seq_ratio a b =
     (if length a + length b = 0 then 1
      else 2 * real (matching_size a b) / real (length a + length b))"

subsection \<open>extract\_snippet\<close>

text \<open>
  The words of the original query: lower-cased, split at whitespace, every character that is
  neither a word character nor an accented letter of the alphabet deleted, kept when longer
  than two characters.
\<close>

definition original_terms_of :: "string option \<Rightarrow> string list" where
  "original_terms_of original_query =
     (case original_query of
        None \<Rightarrow> []
      | Some q \<Rightarrow>
          filter (\<lambda>word_clean. length word_clean > 2)
            (map (filter (\<lambda>c. is_word_char c \<or> c \<in> set (drop 26 alphabet)))
               (split (lower q))))"

datatype match_kind = Exact | Fuzzy

record scan =
  best_match :: "re_match option"
  best_pos :: nat
  match_type :: "match_kind option"
  matched_words :: "string list"

text \<open>Step 1 of the search: the words of the query, as whole words of the text.\<close>

definition exact_step :: "string \<Rightarrow> scan \<Rightarrow> string \<Rightarrow> scan" where
  "exact_step text_lower sc orig_term =
     (case search_word orig_term text_lower of
        None \<Rightarrow> sc
      | Some m \<Rightarrow>
          if fst m < best_pos sc
          then sc\<lparr>best_match := Some m, best_pos := fst m, match_type := Some Exact,
                  matched_words := matched_words sc @ [orig_term]\<rparr>
          else sc)"

definition exact_pass :: "string \<Rightarrow> string list \<Rightarrow> scan \<Rightarrow> scan" where
  "exact_pass text_lower original_terms sc = foldl (exact_step text_lower) sc original_terms"

record fuzzy =
  best_fuzzy_match :: "re_match option"
  best_similarity :: real
  best_fuzzy_pos :: nat

text \<open>
  The body of the inner loop of step 2, for one word of the text.
  \<open>int(search_term_len * 0.7)\<close> and \<open>int(search_term_len * 1.3)\<close> are the integer parts
  of the products (the float products have the same integer parts for every term shorter
  than 90 characters).
\<close>

definition fuzzy_step :: "string \<Rightarrow> string \<Rightarrow> fuzzy \<Rightarrow> string \<Rightarrow> fuzzy" where
  "fuzzy_step text_lower search_term_lower fz word =
     (let search_term_len = length search_term_lower;
          min_len = (search_term_len * 7) div 10;
          max_len = (search_term_len * 13) div 10
      in
        if length word < min_len \<or> length word > max_len then fz
        else if search_term_lower \<noteq> [] \<and> word \<noteq> [] \<and> hd search_term_lower \<noteq> hd word then fz
        else
          let similarity = seq_ratio search_term_lower word in
          if similarity \<ge> best_similarity fz then
            (case search_word word text_lower of
               None \<Rightarrow> fz
             | Some m \<Rightarrow>
                 let pos = fst m in
                 if similarity > best_similarity fz
                    \<or> (similarity = best_similarity fz \<and> pos < best_fuzzy_pos fz)
                 then fz\<lparr>best_fuzzy_match := Some m, best_similarity := similarity,
                         best_fuzzy_pos := pos\<rparr>
                 else fz)
          else fz)"

definition fuzzy_pass :: "string \<Rightarrow> string list \<Rightarrow> fuzzy" where
  "fuzzy_pass text_lower search_terms =
     (let words_in_text = findall_words text_lower in
      foldl (\<lambda>fz search_term. foldl (fuzzy_step text_lower (lower search_term)) fz words_in_text)
        \<lparr>best_fuzzy_match = None, best_similarity = 7 / 10,
         best_fuzzy_pos = length text_lower\<rparr>
        search_terms)"

text \<open>Both passes: the exact one, and the fuzzy one when the exact one found nothing.\<close>

definition find_match :: "string \<Rightarrow> string list \<Rightarrow> scan" where
  "find_match text original_terms =
     (let text_lower = lower text;
          sc = exact_pass text_lower original_terms
                 \<lparr>best_match = None, best_pos = length text, match_type = None,
                  matched_words = []\<rparr>
      in
        if best_match sc = None then
          (let fz = fuzzy_pass text_lower original_terms in
           case best_fuzzy_match fz of
             None \<Rightarrow> sc
           | Some m \<Rightarrow>
               sc\<lparr>best_match := Some m, best_pos := best_fuzzy_pos fz, match_type := Some Fuzzy,
                  matched_words := matched_words sc @ [snd m] @ original_terms\<rparr>)
        else sc)"

text \<open>
  \<open>while start > 0 and text[start] not in [' ', '\n', '\t']: start -= 1\<close>
\<close>

fun back_to_space :: "string \<Rightarrow> nat \<Rightarrow> nat" where
  "back_to_space text 0 = 0"
| "back_to_space text (Suc n) =
     (if text ! Suc n \<in> set [CHR 0x20, CHR 0x0A, CHR 0x09] then Suc n else back_to_space text n)"

text \<open>
  \<open>while end < len(text) and text[end] not in [' ', '\n', '\t', '.', ',', ';', '!', '?']:
  end += 1\<close>
\<close>

function forward_to_delimiter :: "string \<Rightarrow> nat \<Rightarrow> nat" where
  "forward_to_delimiter text e =
     (if e < length text
         \<and> text ! e \<notin> set [CHR 0x20, CHR 0x0A, CHR 0x09, CHR ''.'', CHR '','', CHR '';'',
                              CHR ''!'', CHR ''?'']
      then forward_to_delimiter text (Suc e) else e)"
  by pat_completeness auto
termination
  by (relation "measure (\<lambda>(text, e). length text - e)") auto

declare forward_to_delimiter.simps [simp del]

text \<open>The bounds of the window around a match at \<open>best_pos\<close> of length \<open>match_len\<close>.\<close>

definition window_start :: "string \<Rightarrow> nat \<Rightarrow> nat \<Rightarrow> nat" where
  "window_start text context_length pos =
     (let desired_start = pos - context_length div 2 in
      if desired_start > 0 then
        (let start = back_to_space text desired_start in
         if start > 0 then start + 1 else start)
      else desired_start)"

definition window_end :: "string \<Rightarrow> nat \<Rightarrow> nat \<Rightarrow> nat \<Rightarrow> nat" where
  "window_end text context_length pos match_len =
     (let desired_end = min (length text) (pos + match_len + context_length div 2) in
      if desired_end < length text then
        (let e = forward_to_delimiter text desired_end in
         if e < length text then e + 1 else e)
      else desired_end)"

text \<open>The text of the ellipsis marker.\<close>

definition ellipsis :: string where
  "ellipsis = ''...''"

text \<open>
  The last lines of the function: the beginning of the text, cut at the first space from
  \<open>context_length\<close> on, and at \<open>context_length\<close> when there is none.
\<close>

definition text_start :: "string \<Rightarrow> nat \<Rightarrow> string \<times> string list" where
  "text_start text context_length =
     (if length text > context_length then
        (let end_pos = (case find_space text context_length of
                          None \<Rightarrow> context_length
                        | Some i \<Rightarrow> i)
         in (strip (take end_pos text) @ ellipsis, []))
      else (text, []))"

text \<open>
  \<open>extract_snippet(text, terms, context_length, original_query)\<close>. \<open>context_length\<close> is
  a natural number (the callers pass 250). \<open>list(set(...))\<close> leaves the order of the matched
  words open; the model keeps the first occurrence of each.
\<close>

definition extract_snippet ::
  "string \<Rightarrow> string list \<Rightarrow> nat \<Rightarrow> string option \<Rightarrow> string \<times> string list" where
  "extract_snippet text terms context_length original_query =
     (if text = [] \<or> terms = [] then text_start text context_length
      else
        let sc = find_match text (original_terms_of original_query) in
        case best_match sc of
          Some m \<Rightarrow>
            (let start = window_start text context_length (best_pos sc);
                 e = window_end text context_length (best_pos sc) (length (snd m));
                 snippet = strip (take (e - start) (drop start text));
                 snippet = (if start > 0 then ellipsis @ snippet else snippet);
                 snippet = (if e < length text then snippet @ ellipsis else snippet)
             in (snippet, remdups (map lower (filter (\<lambda>w. w \<noteq> []) (matched_words sc)))))
        | None \<Rightarrow> text_start text context_length)"

section \<open>The corpus container (corpus\_manager.py)\<close>

record document =
  doc_id :: string
  title :: string
  title_raw :: string
  filename :: string
  text_length :: nat
  term_count :: nat

record corpus =
  documents :: "document list"
  texts :: "(string, string) dict"
  processed_terms :: "(string, term_table) dict"
  preprocessing :: preprocessing

text \<open>\<open>CorpusManager.get_document\<close>: the first document with this id, or \<open>None\<close>.\<close>

definition get_document :: "corpus \<Rightarrow> string \<Rightarrow> document option" where
  "get_document cm i = find (\<lambda>doc. doc_id doc = i) (documents cm)"

definition get_document_text :: "corpus \<Rightarrow> string \<Rightarrow> string option" where
  "get_document_text cm i = map_of (texts cm) i"

definition get_all_documents :: "corpus \<Rightarrow> document list" where
  "get_all_documents cm = documents cm"

section \<open>The TF-IDF index (tfidf\_service.py, \_build\_index)\<close>

record tfidf_service =
  tf_idf_index :: "(string, (string, real) dict) dict"
  idf :: "(string, real) dict"
  is_indexed :: bool

text \<open>
  \<open>df = defaultdict(int)\<close>, then \<open>df[termo] += 1\<close> for every key of every
  document's table, in the order of the tables.
\<close>

definition compute_df :: "(string, term_table) dict \<Rightarrow> (string, int) dict" where
  "compute_df pt =
     foldl (\<lambda>df termos_doc.
              foldl (\<lambda>df termo. dict_set df termo (dict_get df termo 0 + 1)) df (keys termos_doc))
       [] (dict_values pt)"

text \<open>\<open>self.idf[termo] = log10(1 + N / df_val)\<close> for every \<open>termo\<close> of \<open>df\<close>.\<close>

definition compute_idf :: "nat \<Rightarrow> (string, int) dict \<Rightarrow> (string, real) dict" where
  "compute_idf N df =
     map (\<lambda>(termo, df_val). (termo, log 10 (1 + real N / real_of_int df_val))) df"

text \<open>\<open>tf = 1 + log10(freq) if freq > 0 else 0\<close>\<close>

definition tf_log :: "int \<Rightarrow> real" where
  "tf_log freq = (if freq > 0 then 1 + log 10 (real_of_int freq) else 0)"

text \<open>
  \<open>self.tf_idf_index[doc_id][termo] = tf * self.idf[termo]\<close>. Every term of a table is a
  key of \<open>idf\<close> (lemma \<open>idf_covers_terms\<close> below), so the subscript never raises; the
  default of the lookup is never used.
\<close>

definition compute_tf_idf_index ::
  "(string, real) dict \<Rightarrow> (string, term_table) dict \<Rightarrow> (string, (string, real) dict) dict" where
  "compute_tf_idf_index idf_map pt =
     map (\<lambda>(d, termos).
            (d, map (\<lambda>(termo, freq). (termo, tf_log freq * dict_get idf_map termo 0)) termos))
       pt"

definition build_index :: "corpus \<Rightarrow> tfidf_service \<Rightarrow> tfidf_service" where
  "build_index cm st =
     (if is_indexed st then st
      else
        let pt = processed_terms cm; N = length pt in
        if N = 0 then st
        else
          let df = compute_df pt; idf_map = compute_idf N df in
          st\<lparr>tf_idf_index := compute_tf_idf_index idf_map pt,
             idf := idf_map,
             is_indexed := True\<rparr>)"

text \<open>The state of a freshly constructed \<open>TFIDFService\<close>.\<close>

definition tfidf_init :: tfidf_service where
  "tfidf_init = \<lparr>tf_idf_index = [], idf = [], is_indexed = False\<rparr>"

section \<open>Result items and ranking (models/schemas.py; the end of both \<open>search\<close> methods)\<close>

record result_item =
  r_id :: string
  r_title :: string
  score :: real
  snippet :: string
  matchedWords :: "string list"
  r_filename :: "string option"

text \<open>
  \<open>sorted(items, key=lambda x: x[1], reverse=True)\<close> and
  \<open>list.sort(key=lambda x: x[1], reverse=True)\<close>: descending by score; Python's sort is
  stable, also with \<open>reverse=True\<close>, so items of equal score keep their order.
\<close>

definition sort_desc :: "('a \<times> real) list \<Rightarrow> ('a \<times> real) list" where
  "sort_desc xs = sort_key (\<lambda>x. - snd x) xs"

text \<open>\<open>xs[:k]\<close> for an integer \<open>k\<close>: a negative \<open>k\<close> counts from the end.\<close>

definition py_take :: "int \<Rightarrow> 'a list \<Rightarrow> 'a list" where
  "py_take k xs = (if k \<ge> 0 then take (nat k) xs else take (length xs - nat (- k)) xs)"

text \<open>
  The result item of a document: its snippet comes from the document's own text (the empty
  string when the corpus has none), the terms of the query and the query as typed.
\<close>

definition result_of ::
  "corpus \<Rightarrow> string \<Rightarrow> string list \<Rightarrow> document \<Rightarrow> string \<Rightarrow> real \<Rightarrow> result_item" where
  "result_of cm query query_terms doc_info d sc =
     (let text = (case get_document_text cm d of None \<Rightarrow> [] | Some t \<Rightarrow> t);
          sm = extract_snippet text query_terms 250 (Some query)
      in \<lparr>r_id = d, r_title = title doc_info, score = sc, snippet = fst sm,
           matchedWords = snd sm, r_filename = Some (filename doc_info)\<rparr>)"

text \<open>
  The loop that builds the result list, the same in both services: a document already seen
  or unknown to the corpus is skipped.
\<close>

fun make_results ::
  "corpus \<Rightarrow> string \<Rightarrow> string list \<Rightarrow> string list \<Rightarrow> (string \<times> real) list \<Rightarrow> result_item list" where
  "make_results cm query query_terms seen_doc_ids [] = []"
| "make_results cm query query_terms seen_doc_ids ((d, sc) # rest) =
     (if d \<in> set seen_doc_ids then make_results cm query query_terms seen_doc_ids rest
      else
        case get_document cm d of
          None \<Rightarrow> make_results cm query query_terms (d # seen_doc_ids) rest
        | Some doc_info \<Rightarrow>
            result_of cm query query_terms doc_info d sc
              # make_results cm query query_terms (d # seen_doc_ids) rest)"

section \<open>TF-IDF scoring (tfidf\_service.py, search)\<close>

text \<open>\<open>np.linalg.norm\<close> and \<open>np.dot\<close> on vectors of the same length.\<close>

definition norm2 :: "real list \<Rightarrow> real" where
  "norm2 v = sqrt (sum_list (map (\<lambda>x. x * x) v))"

definition dot :: "real list \<Rightarrow> real list \<Rightarrow> real" where
  "dot u v = sum_list (map2 (*) u v)"

text \<open>The query vector: one TF-IDF value for every element of \<open>query_terms\<close>.\<close>

definition query_tfidf_values :: "(string, real) dict \<Rightarrow> string list \<Rightarrow> real list" where
  "query_tfidf_values idf_map query_terms =
     (let query_term_freq = foldl count_term [] query_terms in
      map (\<lambda>termo.
             let tf_query = dict_get query_term_freq termo 0;
                 tf_query' = (if tf_query > 0 then 1 + log 10 (real_of_int tf_query) else 0);
                 idf_val = dict_get idf_map termo 0
             in tf_query' * idf_val)
        query_terms)"

text \<open>
  The body of the loop over the documents: the document's vector over the query terms and
  its similarity; \<open>None\<close> where the loop goes on to the next document without one.
\<close>

definition doc_vector_of :: "(string, real) dict \<Rightarrow> string list \<Rightarrow> real list" where
  "doc_vector_of doc_weights query_terms = map (\<lambda>termo. dict_get doc_weights termo 0) query_terms"

definition similarity_of :: "bool \<Rightarrow> real list \<Rightarrow> real list \<Rightarrow> real option" where
  "similarity_of is_single_term query_vector_normalized doc_vector =
     (if length doc_vector \<noteq> length query_vector_normalized then None
      else if \<not> sum_list doc_vector > 0 then None
      else if is_single_term then Some (doc_vector ! 0)
      else
        let doc_norm = norm2 doc_vector in
        if doc_norm > 0
        then Some (dot (map (\<lambda>x. x / doc_norm) doc_vector) query_vector_normalized)
        else None)"

text \<open>
  \<open>similarities\<close>: the documents of the index, in its order, with a similarity above 0.
  The keys of the index are pairwise different, so every assignment
  \<open>similarities[doc_id] = similarity\<close> adds a key.
\<close>

definition similarities_of ::
  "(string, (string, real) dict) dict \<Rightarrow> bool \<Rightarrow> real list \<Rightarrow> string list \<Rightarrow> (string, real) dict" where
  "similarities_of index is_single_term query_vector_normalized query_terms =
     concat (map (\<lambda>(d, doc_weights).
                    case similarity_of is_single_term query_vector_normalized
                           (doc_vector_of doc_weights query_terms) of
                      None \<Rightarrow> []
                    | Some similarity \<Rightarrow> (if similarity > 0 then [(d, similarity)] else []))
             index)"

text \<open>
  The query terms that are keys of \<open>idf\<close> (\<open>termos_encontrados\<close>), and the sorted
  similarities (\<open>sorted_docs\<close>) of an indexed service; \<open>None\<close> where \<open>search\<close> returns
  the empty list before it scores.
\<close>

definition termos_encontrados :: "tfidf_service \<Rightarrow> string list \<Rightarrow> string list" where
  "termos_encontrados st query_terms = filter (\<lambda>t. t \<in> set (keys (idf st))) query_terms"

definition tfidf_similarities :: "tfidf_service \<Rightarrow> string list \<Rightarrow> (string, real) dict option" where
  "tfidf_similarities st query_terms =
     (if query_terms = [] then None
      else
        let query_terms = termos_encontrados st query_terms in
        if query_terms = [] then None
        else
          let query_vector = query_tfidf_values (idf st) query_terms in
          if length query_vector = 0 \<or> sum_list query_vector = 0 then None
          else
            let is_single_term = (length query_terms = 1);
                query_norm = norm2 query_vector
            in
              if query_norm > 0
              then Some (similarities_of (tf_idf_index st) is_single_term
                           (map (\<lambda>x. x / query_norm) query_vector) query_terms)
              else None)"

text \<open>
  \<open>TFIDFService.search(query, tf_weight, top_k)\<close>: the results and the service after the
  call (the index is built on the first call). \<open>tf_weight\<close> is not read.
\<close>

definition tfidf_search ::
  "corpus \<Rightarrow> preprocessing \<Rightarrow> tfidf_service \<Rightarrow> string \<Rightarrow> string \<Rightarrow> int
     \<Rightarrow> result_item list \<times> tfidf_service" where
  "tfidf_search cm p st0 query tf_weight top_k =
     (let st = build_index cm st0;
          query_terms = process_query p query
      in case tfidf_similarities st query_terms of
           None \<Rightarrow> ([], st)
         | Some similarities \<Rightarrow>
             (make_results cm query (termos_encontrados st query_terms) []
                (py_take top_k (sort_desc similarities)), st))"

section \<open>BM25 scoring (bm25\_service.py)\<close>

text \<open>
  The index object of the package \<open>rank_bm25\<close>: the parameters and the tokenized corpus it
  was built from.
\<close>

record bm25_index =
  ix_k1 :: real
  ix_b :: real
  ix_corpus :: "string list list"

definition BM25Okapi :: "string list list \<Rightarrow> real \<Rightarrow> real \<Rightarrow> bm25_index" where
  "BM25Okapi corpus k1 b = \<lparr>ix_k1 = k1, ix_b = b, ix_corpus = corpus\<rparr>"

text \<open>
  Modelled from the spec: \<open>rank_bm25.BM25Okapi.get_scores\<close>, a third-party package that is
  not among the sources. The score of a document is the sum of section 4.3,
  \<open>idf(t) * f(t,d) * (k1 + 1) / (f(t,d) + k1 * (1 - b + b * |d| / avgdl))\<close> over the query
  terms, one summand for each occurrence in the query. The idf is the package's:
  \<open>ln(N - n + 0.5) - ln(n + 0.5)\<close> for a term in \<open>n\<close> of the \<open>N\<close> documents, replaced by
  a quarter of the average idf where it is negative, and 0 for a term of no document.
\<close>

definition okapi_nd :: "string list list \<Rightarrow> string \<Rightarrow> nat" where
  "okapi_nd corpus w = length (filter (\<lambda>doc. w \<in> set doc) corpus)"

definition okapi_raw_idf :: "string list list \<Rightarrow> string \<Rightarrow> real" where
  "okapi_raw_idf corpus w =
     ln (real (length corpus) - real (okapi_nd corpus w) + 1 / 2) - ln (real (okapi_nd corpus w) + 1 / 2)"

definition okapi_idf :: "string list list \<Rightarrow> string \<Rightarrow> real" where
  "okapi_idf corpus w =
     (let vocabulary = remdups (concat corpus);
          average_idf = sum_list (map (okapi_raw_idf corpus) vocabulary) / real (length vocabulary)
      in if w \<notin> set vocabulary then 0
         else if okapi_raw_idf corpus w < 0 then (1 / 4) * average_idf
         else okapi_raw_idf corpus w)"

definition get_scores :: "bm25_index \<Rightarrow> string list \<Rightarrow> real list" where
  "get_scores ix query =
     (let corpus = ix_corpus ix;
          avgdl = real (sum_list (map length corpus)) / real (length corpus)
      in map (\<lambda>doc.
                sum_list (map (\<lambda>q.
                   let q_freq = real (count_list doc q) in
                   okapi_idf corpus q *
                     (q_freq * (ix_k1 ix + 1) /
                       (q_freq + ix_k1 ix * (1 - ix_b ix + ix_b ix * real (length doc) / avgdl))))
                 query))
           corpus)"

record bm25_service =
  bm25_index :: "bm25_index option"
  doc_ids :: "string list"
  bm_is_indexed :: bool

definition bm25_init :: bm25_service where
  "bm25_init = \<lparr>bm25_index = None, doc_ids = [], bm_is_indexed = False\<rparr>"

text \<open>
  \<open>_prepare_corpus\<close>: the documents in the sorted order of their identifiers (strings
  compare character by character), every term repeated as often as it is counted
  (\<open>[termo] * freq\<close> is empty for a count below 1). It returns the token lists and sets
  \<open>self.doc_ids\<close>.
\<close>

definition prepare_corpus :: "corpus \<Rightarrow> bm25_service \<Rightarrow> string list list \<times> bm25_service" where
  "prepare_corpus cm st =
     (let ids = sort (keys (processed_terms cm)) in
      (map (\<lambda>d. concat (map (\<lambda>(termo, freq). replicate (nat freq) termo)
                           (dict_get (processed_terms cm) d [])))
         ids,
       st\<lparr>doc_ids := ids\<rparr>))"

definition bm25_build_index :: "corpus \<Rightarrow> bm25_service \<Rightarrow> bm25_service" where
  "bm25_build_index cm st =
     (if bm_is_indexed st then st
      else
        case prepare_corpus cm st of
          (corpus, st') \<Rightarrow>
            if corpus = [] then st'
            else st'\<lparr>bm25_index := Some (BM25Okapi corpus (12 / 10) (75 / 100)),
                     bm_is_indexed := True\<rparr>)"

text \<open>
  The index \<open>search\<close> scores with: rebuilt when the requested parameters differ from the
  index's.
\<close>

definition bm25_refresh :: "corpus \<Rightarrow> bm25_service \<Rightarrow> bm25_index \<Rightarrow> real \<Rightarrow> real \<Rightarrow> bm25_service" where
  "bm25_refresh cm st ix k1 b =
     (if k1 \<noteq> ix_k1 ix \<or> b \<noteq> ix_b ix
      then (case prepare_corpus cm st of
              (corpus, st') \<Rightarrow> st'\<lparr>bm25_index := Some (BM25Okapi corpus k1 b)\<rparr>)
      else st)"

text \<open>\<open>doc_scores\<close>: the documents with a score above 0, in the order of \<open>doc_ids\<close>.\<close>

definition bm25_doc_scores :: "bm25_service \<Rightarrow> string list \<Rightarrow> (string \<times> real) list" where
  "bm25_doc_scores st query_terms =
     (case bm25_index st of
        None \<Rightarrow> []
      | Some ix \<Rightarrow> filter (\<lambda>(d, s). s > 0) (zip (doc_ids st) (get_scores ix query_terms)))"

text \<open>\<open>BM25Service.search(query, k1, b, top_k)\<close>: the results and the service after the call.\<close>

definition bm25_search ::
  "corpus \<Rightarrow> preprocessing \<Rightarrow> bm25_service \<Rightarrow> string \<Rightarrow> real \<Rightarrow> real \<Rightarrow> int
     \<Rightarrow> result_item list \<times> bm25_service" where
  "bm25_search cm p st0 query k1 b top_k =
     (let st = bm25_build_index cm st0 in
      case bm25_index st of
        None \<Rightarrow> ([], st)
      | Some ix \<Rightarrow>
          (let query_terms = process_query p query in
           if query_terms = [] then ([], st)
           else
             let st' = bm25_refresh cm st ix k1 b in
             (make_results cm query query_terms []
                (py_take top_k (sort_desc (bm25_doc_scores st' query_terms))), st')))"

section \<open>The orchestrator (search\_service.py)\<close>

record metrics =
  preprocessTime :: real
  tfidfTime :: real
  bm25Time :: real

record response =
  tfidf :: "result_item list"
  bm25 :: "result_item list"
  metrics :: metrics

record search_service =
  corpus_manager :: corpus
  tfidf_service :: tfidf_service
  bm25_service :: bm25_service

text \<open>
  \<open>SearchService.search(query, k1, b, tf_weight, top_k)\<close>. \<open>clock n\<close> is the value of the
  \<open>n\<close>-th call of \<open>time.perf_counter()\<close> in the call, in seconds. Both scorers share the
  corpus manager's normalizer.
\<close>

definition search ::
  "search_service \<Rightarrow> (nat \<Rightarrow> real) \<Rightarrow> string \<Rightarrow> real \<Rightarrow> real \<Rightarrow> string \<Rightarrow> int option
     \<Rightarrow> response \<times> search_service" where
  "search svc clock query k1 b tf_weight top_k =
     (let cm = corpus_manager svc;
          p = preprocessing cm;
          start_time = clock 0;
          preprocess_start = clock 1;
          query_terms = process_query p query;
          preprocess_time = (clock 2 - preprocess_start) * 1000
      in
        if query_terms = [] then
          (\<lparr>tfidf = [], bm25 = [],
            metrics = \<lparr>preprocessTime = preprocess_time, tfidfTime = 0, bm25Time = 0\<rparr>\<rparr>, svc)
        else
          let top_k' = (case top_k of
                          None \<Rightarrow> int (length (get_all_documents cm))
                        | Some k \<Rightarrow> k);
              tfidf_start = clock 3;
              tr = tfidf_search cm p (tfidf_service svc) query tf_weight top_k';
              tfidf_time = (clock 4 - tfidf_start) * 1000;
              bm25_start = clock 5;
              br = bm25_search cm p (bm25_service svc) query k1 b top_k';
              bm25_time = (clock 6 - bm25_start) * 1000
          in
            (\<lparr>tfidf = fst tr, bm25 = fst br,
              metrics = \<lparr>preprocessTime = preprocess_time, tfidfTime = tfidf_time,
                         bm25Time = bm25_time\<rparr>\<rparr>,
             svc\<lparr>tfidf_service := snd tr, bm25_service := snd br\<rparr>))"

text \<open>
  The document frequency the specification names: the number of documents whose table
  has the term as a key.
\<close>

definition doc_freq :: "(string, term_table) dict \<Rightarrow> string \<Rightarrow> nat" where
  "doc_freq pt t = card {d. \<exists>tt. map_of pt d = Some tt \<and> t \<in> set (keys tt)}"

definition tables_ok :: "(string, term_table) dict \<Rightarrow> bool" where
  "tables_ok pt = (is_dict pt \<and> list_all (\<lambda>p. is_dict (snd p)) pt)"

text \<open>The same count, as a computation over the list of tables.\<close>

definition df_count :: "(string, term_table) dict \<Rightarrow> string \<Rightarrow> nat" where
  "df_count pt t = length (filter (\<lambda>p. t \<in> set (keys (snd p))) pt)"

section \<open>Ranking order and reachable states\<close>

text \<open>The position of the first occurrence of an element in a list (the length when it has none).\<close>

fun index_of :: "'a list \<Rightarrow> 'a \<Rightarrow> nat" where
  "index_of [] x = 0"
| "index_of (y # ys) x = (if x = y then 0 else Suc (index_of ys x))"

text \<open>
  The order of a ranked list: a higher score first, and between equal scores the document
  that comes first in the order \<open>before\<close>.
\<close>

definition ranked :: "(string \<Rightarrow> string \<Rightarrow> bool) \<Rightarrow> result_item \<Rightarrow> result_item \<Rightarrow> bool" where
  "ranked before r r' =
     (score r > score r' \<or> (score r = score r' \<and> before (r_id r) (r_id r')))"

text \<open>
  The states a TF-IDF service can be in for a corpus: as constructed, or with the index
  of that corpus.
\<close>

definition tfidf_ok :: "corpus \<Rightarrow> tfidf_service \<Rightarrow> bool" where
  "tfidf_ok cm st =
     (if is_indexed st then processed_terms cm \<noteq> [] \<and> st = build_index cm tfidf_init
      else st = tfidf_init)"

text \<open>
  The states a BM25 service can be in for a corpus: as constructed, or with an index
  over the tokens of that corpus and the identifiers in sorted order.
\<close>

definition bm25_ok :: "corpus \<Rightarrow> bm25_service \<Rightarrow> bool" where
  "bm25_ok cm st =
     (if bm_is_indexed st
      then processed_terms cm \<noteq> [] \<and> doc_ids st = sort (keys (processed_terms cm))
           \<and> (case bm25_index st of
                 None \<Rightarrow> False
               | Some ix \<Rightarrow> ix_corpus ix = fst (prepare_corpus cm st))
      else st = bm25_init)"

text \<open>
  A loaded corpus: the tables are a dictionary, and every document with a table is in the
  list of documents (\<open>_process_pdfs\<close> adds both together).
\<close>

definition corpus_ok :: "corpus \<Rightarrow> bool" where
  "corpus_ok cm =
     (is_dict (processed_terms cm)
      \<and> list_all (\<lambda>d. d \<in> set (map doc_id (documents cm))) (keys (processed_terms cm)))"

section \<open>Example data\<close>

text \<open>
  A normalizer without spaCy and without a stemmer, and the corpus of scenario A of the
  specification: \<open>gato\<close> five times in the first document, once in the second, never in
  the third.
\<close>

definition plain_normalizer :: preprocessing where
  "plain_normalizer =
     \<lparr>use_spacy = False, nlp = None, stemmer = None, stopwords = [''para'', ''uma''],
      lematizadas_corrigidas = []\<rparr>"

definition mkdoc :: "string \<Rightarrow> document" where
  "mkdoc i =
     \<lparr>doc_id = i, title = i, title_raw = i, filename = i @ ''.pdf'', text_length = 10,
      term_count = 2\<rparr>"

definition corpus_A :: corpus where
  "corpus_A =
     \<lparr>documents = map mkdoc [''doc_1'', ''doc_2'', ''doc_3''],
      texts = [(''doc_1'', ''gato gato gato gato gato casa casa''), (''doc_2'', ''gato rua''),
               (''doc_3'', ''casa'')],
      processed_terms =
        [(''doc_1'', [(''gato'', 5), (''casa'', 2)]), (''doc_2'', [(''gato'', 1), (''rua'', 1)]),
         (''doc_3'', [(''casa'', 1)])],
      preprocessing = plain_normalizer\<rparr>"

definition service_A :: search_service where
  "service_A = \<lparr>corpus_manager = corpus_A, tfidf_service = tfidf_init, bm25_service = bm25_init\<rparr>"

definition tokens_A :: "string list list" where
  "tokens_A =
     [[''gato'', ''gato'', ''gato'', ''gato'', ''gato'', ''casa'', ''casa''], [''gato'', ''rua''],
      [''casa'']]"

text \<open>
  A corpus of ten documents in load order \<open>doc_1 ... doc_10\<close>; only \<open>doc_2\<close> and
  \<open>doc_10\<close> hold \<open>gato\<close>, once each.
\<close>

definition ids_T :: "string list" where
  "ids_T = [''doc_1'', ''doc_2'', ''doc_3'', ''doc_4'', ''doc_5'', ''doc_6'', ''doc_7'', ''doc_8'',
            ''doc_9'', ''doc_10'']"

definition corpus_T :: corpus where
  "corpus_T =
     \<lparr>documents = map mkdoc ids_T,
      texts = [],
      processed_terms =
        map (\<lambda>d. (d, if d = ''doc_2'' \<or> d = ''doc_10'' then [(''gato'', 1)] else [(''rua'', 1)])) ids_T,
      preprocessing = plain_normalizer\<rparr>"

definition tokens_T :: "string list list" where
  "tokens_T = [[''rua''], [''gato''], [''gato''], [''rua''], [''rua''], [''rua''], [''rua''],
               [''rua''], [''rua''], [''rua'']]"

definition sorted_ids_T :: "string list" where
  "sorted_ids_T = [''doc_1'', ''doc_10'', ''doc_2'', ''doc_3'', ''doc_4'', ''doc_5'', ''doc_6'',
                   ''doc_7'', ''doc_8'', ''doc_9'']"

definition service_T :: search_service where
  "service_T = \<lparr>corpus_manager = corpus_T, tfidf_service = tfidf_init, bm25_service = bm25_init\<rparr>"


section \<open>The index: document frequency and idf\<close>

lemma bump_fold_get:
  "distinct ks \<Longrightarrow>
   map_of (foldl (\<lambda>df termo. dict_set df termo (dict_get df termo (0::int) + 1)) df ks) t =
     (if t \<in> set ks then Some (dict_get df t 0 + 1) else map_of df t)"
proof (induction ks arbitrary: df)
  case Nil
  then show ?case by simp
next
  case (Cons k ks)
  then show ?case
    by (auto simp: dict_set_def dict_get_def update_conv')
qed

lemma bump_fold_dict:
  "is_dict df \<Longrightarrow>
   is_dict (foldl (\<lambda>df termo. dict_set df termo (dict_get df termo (0::int) + 1)) df ks)"
  by (induction ks arbitrary: df) (simp_all add: is_dict_def dict_set_def distinct_update)

lemma compute_df_gen:
  "list_all (\<lambda>p. is_dict (snd p)) pt \<Longrightarrow>
   map_of (foldl (\<lambda>df termos_doc.
              foldl (\<lambda>df termo. dict_set df termo (dict_get df termo 0 + 1)) df (keys termos_doc))
       df0 (dict_values pt)) t =
     (if df_count pt t = 0 then map_of df0 t
      else Some (dict_get df0 t 0 + int (df_count pt t)))"
proof (induction pt arbitrary: df0)
  case Nil
  then show ?case by (simp add: dict_values_def df_count_def)
next
  case (Cons p pt)
  have d: "distinct (keys (snd p))" using Cons.prems by (simp add: is_dict_def keys_def)
  have r: "list_all (\<lambda>p. is_dict (snd p)) pt" using Cons.prems by simp
  show ?case
    using Cons.IH[OF r] bump_fold_get[OF d]
    by (simp add: dict_values_def df_count_def dict_get_def)
qed

lemma compute_df_dict_gen:
  "is_dict df0 \<Longrightarrow>
   is_dict (foldl (\<lambda>df termos_doc.
              foldl (\<lambda>df termo. dict_set df termo (dict_get df termo (0::int) + 1)) df (keys termos_doc))
       df0 vs)"
  by (induction vs arbitrary: df0) (simp_all add: bump_fold_dict)

lemma compute_df_lookup:
  "list_all (\<lambda>p. is_dict (snd p)) pt \<Longrightarrow>
   map_of (compute_df pt) t = (if df_count pt t = 0 then None else Some (int (df_count pt t)))"
  using compute_df_gen[of pt "[]" t] by (simp add: compute_df_def dict_get_def)

lemma compute_df_is_dict: "is_dict (compute_df pt)"
  unfolding compute_df_def by (rule compute_df_dict_gen) (simp add: is_dict_def)

lemma compute_idf_lookup:
  "map_of (compute_idf N df) t = map_option (\<lambda>d. log 10 (1 + real N / real_of_int d)) (map_of df t)"
  unfolding compute_idf_def by (induction df) auto

lemma df_count_le: "df_count pt t \<le> length pt"
  unfolding df_count_def by simp

lemma doc_freq_count:
  assumes "is_dict pt"
  shows "doc_freq pt t = df_count pt t"
proof -
  let ?P = "\<lambda>p. t \<in> set (keys (snd p))"
  have d: "distinct (map fst pt)" using assms by (simp add: is_dict_def)
  have "{d. \<exists>tt. map_of pt d = Some tt \<and> t \<in> set (keys tt)} = fst ` set (filter ?P pt)"
  proof (intro set_eqI iffI)
    fix x assume "x \<in> {d. \<exists>tt. map_of pt d = Some tt \<and> t \<in> set (keys tt)}"
    then obtain tt where "map_of pt x = Some tt" "t \<in> set (keys tt)" by blast
    then have "(x, tt) \<in> set (filter ?P pt)" by (simp add: map_of_SomeD)
    then show "x \<in> fst ` set (filter ?P pt)" by (metis fst_conv image_eqI)
  next
    fix x assume "x \<in> fst ` set (filter ?P pt)"
    then obtain p where p: "p \<in> set pt" "?P p" "x = fst p" by auto
    then have "map_of pt x = Some (snd p)" using d by simp
    then show "x \<in> {d. \<exists>tt. map_of pt d = Some tt \<and> t \<in> set (keys tt)}" using p by blast
  qed
  moreover have "distinct (map fst (filter ?P pt))"
    using d by (simp add: distinct_map_filter)
  ultimately have "doc_freq pt t = length (map fst (filter ?P pt))"
    unfolding doc_freq_def using distinct_card[of "map fst (filter ?P pt)"] by simp
  then show ?thesis by (simp add: df_count_def)
qed

lemma idf_value_pos: "1 \<le> d \<Longrightarrow> d \<le> N \<Longrightarrow> 0 < log 10 (1 + real N / real d)"
proof -
  assume "1 \<le> d" "d \<le> N"
  then have "0 < real N / real d" by simp
  then have "1 < 1 + real N / real d" by simp
  then show ?thesis by simp
qed


lemma build_index_idf:
  assumes "processed_terms cm \<noteq> []" and "\<not> is_indexed st"
  shows "idf (build_index cm st) = compute_idf (length (processed_terms cm)) (compute_df (processed_terms cm))"
   and "tf_idf_index (build_index cm st) = compute_tf_idf_index (idf (build_index cm st)) (processed_terms cm)"
   and "is_indexed (build_index cm st)"
  using assms by (simp_all add: build_index_def Let_def)

lemma idf_lookup:
  assumes "tables_ok (processed_terms cm)" and "processed_terms cm \<noteq> []" and "\<not> is_indexed st"
  shows "map_of (idf (build_index cm st)) t =
          (if doc_freq (processed_terms cm) t = 0 then None
           else Some (log 10 (1 + real (length (processed_terms cm))
                                  / real (doc_freq (processed_terms cm) t))))"
proof -
  have d: "is_dict (processed_terms cm)" and a: "list_all (\<lambda>p. is_dict (snd p)) (processed_terms cm)"
    using assms(1) by (simp_all add: tables_ok_def)
  show ?thesis
    by (simp add: build_index_idf(1)[OF assms(2,3)] compute_idf_lookup compute_df_lookup[OF a]
        doc_freq_count[OF d])
qed

lemma idf_covers_terms:
  assumes "tables_ok (processed_terms cm)" and "processed_terms cm \<noteq> []" and "\<not> is_indexed st"
    and "(d, termos) \<in> set (processed_terms cm)" and "termo \<in> set (keys termos)"
  shows "termo \<in> set (keys (idf (build_index cm st)))"
proof -
  have "df_count (processed_terms cm) termo \<noteq> 0"
    using assms(4,5) unfolding df_count_def by (force simp: filter_empty_conv)
  moreover have "is_dict (processed_terms cm)" using assms(1) by (simp add: tables_ok_def)
  ultimately have "doc_freq (processed_terms cm) termo \<noteq> 0" by (simp add: doc_freq_count)
  then have "map_of (idf (build_index cm st)) termo \<noteq> None"
    using idf_lookup[OF assms(1,2,3), of termo] by simp
  then show ?thesis by (simp add: keys_def map_of_eq_None_iff)
qed

text \<open>
  C3. For a corpus of at least one document, the index build gives every term \<open>t\<close> of the
  corpus the weight \<open>log10(1 + N / df(t))\<close>, where \<open>df(t)\<close> is the number of documents
  whose table has \<open>t\<close> (terms of no document get none); \<open>df(t)\<close> is at most \<open>N\<close>, and
  every weight of the index is strictly positive, also when \<open>df(t) = N\<close>.
\<close>

theorem idf_formula_positive:
  assumes "tables_ok (processed_terms cm)" and "processed_terms cm \<noteq> []" and "\<not> is_indexed st"
  shows "(\<forall>t. map_of (idf (build_index cm st)) t =
             (if doc_freq (processed_terms cm) t = 0 then None
              else Some (log 10 (1 + real (length (processed_terms cm))
                                     / real (doc_freq (processed_terms cm) t)))))
       \<and> (\<forall>t. doc_freq (processed_terms cm) t \<le> length (processed_terms cm))
       \<and> (\<forall>t v. map_of (idf (build_index cm st)) t = Some v \<longrightarrow> 0 < v)"
proof (intro conjI allI impI)
  fix t
  show "map_of (idf (build_index cm st)) t =
         (if doc_freq (processed_terms cm) t = 0 then None
          else Some (log 10 (1 + real (length (processed_terms cm))
                                 / real (doc_freq (processed_terms cm) t))))"
    by (rule idf_lookup[OF assms])
next
  fix t
  have "is_dict (processed_terms cm)" using assms(1) by (simp add: tables_ok_def)
  then show "doc_freq (processed_terms cm) t \<le> length (processed_terms cm)"
    by (simp add: doc_freq_count df_count_le)
next
  fix t v
  assume v: "map_of (idf (build_index cm st)) t = Some v"
  have d: "is_dict (processed_terms cm)" using assms(1) by (simp add: tables_ok_def)
  have le: "doc_freq (processed_terms cm) t \<le> length (processed_terms cm)"
    using d by (simp add: doc_freq_count df_count_le)
  from v idf_lookup[OF assms, of t]
  have nz: "doc_freq (processed_terms cm) t \<noteq> 0"
    and "v = log 10 (1 + real (length (processed_terms cm)) / real (doc_freq (processed_terms cm) t))"
    by (auto split: if_splits)
  then show "0 < v" using idf_value_pos[of "doc_freq (processed_terms cm) t" "length (processed_terms cm)"] le
    by simp
qed

theorem idf_formula_positive_witness:
  "tables_ok (processed_terms corpus_A) \<and> processed_terms corpus_A \<noteq> [] \<and> \<not> is_indexed tfidf_init
   \<and> doc_freq (processed_terms corpus_A) ''gato'' = 2
   \<and> map_of (idf (build_index corpus_A tfidf_init)) ''gato'' = Some (log 10 (1 + 3 / 2))
   \<and> 0 < log 10 (1 + 3 / 2 :: real)"
proof -
  have h1: "tables_ok (processed_terms corpus_A)"
    by (simp add: corpus_A_def tables_ok_def is_dict_def)
  have h2: "processed_terms corpus_A \<noteq> []" by (simp add: corpus_A_def)
  have h3: "\<not> is_indexed tfidf_init" by (simp add: tfidf_init_def)
  have df: "doc_freq (processed_terms corpus_A) ''gato'' = 2"
    using h1 by (simp add: doc_freq_count tables_ok_def) (simp add: df_count_def corpus_A_def keys_def)
  have len: "length (processed_terms corpus_A) = 3" by (simp add: corpus_A_def)
  note t = idf_formula_positive[OF h1 h2 h3]
  from t have v: "map_of (idf (build_index corpus_A tfidf_init)) ''gato'' = Some (log 10 (1 + 3 / 2))"
    using df len by simp
  moreover from t v have "0 < log 10 (1 + 3 / 2 :: real)" by blast
  ultimately show ?thesis using h1 h2 h3 df by blast
qed

section \<open>The orchestrator on an empty query\<close>

text \<open>
  C5. When the normalization of the query gives no term (the empty string, or only stop
  words and short tokens), \<open>SearchService.search\<close> returns both result lists empty
  with \<open>tfidfTime = 0\<close> and \<open>bm25Time = 0\<close>; \<open>preprocessTime\<close> is not negative (the
  performance counter never goes back); and the service is returned as it was: neither
  scorer ran, so neither built its index.
\<close>

theorem empty_query_short_circuit:
  assumes "process_query (preprocessing (corpus_manager svc)) query = []" and "mono clock"
  shows "search svc clock query k1 b tf_weight top_k =
           (\<lparr>tfidf = [], bm25 = [],
             metrics = \<lparr>preprocessTime = (clock 2 - clock 1) * 1000, tfidfTime = 0, bm25Time = 0\<rparr>\<rparr>,
            svc)
       \<and> 0 \<le> preprocessTime (metrics (fst (search svc clock query k1 b tf_weight top_k)))"
proof -
  have "clock 1 \<le> clock 2" using assms(2) by (simp add: monoD)
  then show ?thesis using assms(1) by (simp add: search_def Let_def)
qed

lemma process_query_empty: "process_query plain_normalizer [] = []"
  by (simp add: process_query_def plain_normalizer_def split_def lower_def)

lemma process_query_stopwords: "process_query plain_normalizer ''Para uma, o 12'' = []"
  by (simp add: process_query_def plain_normalizer_def split_def lower_def lower_char_def
      is_upper_def isspace_def normalize_term_def strip_def alphabet_def)

theorem empty_query_short_circuit_witness:
  "process_query (preprocessing (corpus_manager service_A)) ''Para uma, o 12'' = []
   \<and> mono (\<lambda>n. real n)
   \<and> search service_A (\<lambda>n. real n) ''Para uma, o 12'' (12 / 10) (75 / 100) ''log'' None =
       (\<lparr>tfidf = [], bm25 = [],
         metrics = \<lparr>preprocessTime = 1000, tfidfTime = 0, bm25Time = 0\<rparr>\<rparr>, service_A)"
proof -
  have h1: "process_query (preprocessing (corpus_manager service_A)) ''Para uma, o 12'' = []"
    using process_query_stopwords by (simp add: service_A_def corpus_A_def)
  have h2: "mono (\<lambda>n. real n)" by (simp add: mono_def)
  from empty_query_short_circuit[OF h1 h2, of "12 / 10" "75 / 100" "''log''" None]
  show ?thesis using h1 h2 by simp
qed

section \<open>The BM25 index and the requested parameters\<close>

text \<open>
  C7. For a call of \<open>BM25Service.search\<close> with a query that has terms, on a service that
  has an index once \<open>_build_index\<close> has run: the scores of the results are those of an
  index whose parameters are the requested \<open>k1\<close> and \<open>b\<close>. Where they differ from the
  cached index's, that index was built anew from the tables of the corpus; where they
  are equal, the cached index is the one used and the service does not change.
\<close>

theorem bm25_index_matches_request:
  assumes "process_query p query \<noteq> []"
    and "bm25_index (bm25_build_index cm st0) = Some ix"
  shows "\<exists>ix'. bm25_index (snd (bm25_search cm p st0 query k1 b top_k)) = Some ix'
           \<and> ix_k1 ix' = k1 \<and> ix_b ix' = b
           \<and> fst (bm25_search cm p st0 query k1 b top_k) =
               make_results cm query (process_query p query) []
                 (py_take top_k (sort_desc (filter (\<lambda>(d, s). s > 0)
                    (zip (doc_ids (snd (bm25_search cm p st0 query k1 b top_k)))
                         (get_scores ix' (process_query p query))))))
           \<and> (k1 \<noteq> ix_k1 ix \<or> b \<noteq> ix_b ix \<longrightarrow>
                ix' = BM25Okapi (fst (prepare_corpus cm (bm25_build_index cm st0))) k1 b)
           \<and> (k1 = ix_k1 ix \<and> b = ix_b ix \<longrightarrow>
                ix' = ix \<and> snd (bm25_search cm p st0 query k1 b top_k) = bm25_build_index cm st0)"
proof (cases "k1 \<noteq> ix_k1 ix \<or> b \<noteq> ix_b ix")
  case True
  then show ?thesis using assms
    by (auto simp: bm25_search_def bm25_refresh_def bm25_doc_scores_def Let_def BM25Okapi_def
        prepare_corpus_def)
next
  case False
  then show ?thesis using assms
    by (auto simp: bm25_search_def bm25_refresh_def bm25_doc_scores_def Let_def)
qed


lemma prepare_corpus_A:
  "prepare_corpus corpus_A st = (tokens_A, st\<lparr>doc_ids := [''doc_1'', ''doc_2'', ''doc_3'']\<rparr>)"
  by (simp add: prepare_corpus_def corpus_A_def keys_def dict_get_def tokens_A_def Let_def
      numeral_eq_Suc)

lemma build_A:
  "bm25_build_index corpus_A bm25_init =
     \<lparr>bm25_index = Some (BM25Okapi tokens_A (12 / 10) (75 / 100)),
      doc_ids = [''doc_1'', ''doc_2'', ''doc_3''], bm_is_indexed = True\<rparr>"
  by (simp add: bm25_build_index_def prepare_corpus_A bm25_init_def) (simp add: tokens_A_def)

lemma process_query_gato: "process_query plain_normalizer ''gato'' = [''gato'']"
  by (simp add: process_query_def plain_normalizer_def split_def lower_def lower_char_def
      is_upper_def isspace_def normalize_term_def strip_def alphabet_def)

theorem bm25_index_matches_request_witness:
  "process_query plain_normalizer ''gato'' \<noteq> []
   \<and> bm25_index (bm25_build_index corpus_A bm25_init) = Some (BM25Okapi tokens_A (12 / 10) (75 / 100))
   \<and> bm25_index (snd (bm25_search corpus_A plain_normalizer bm25_init ''gato'' 2 (1 / 2) 10))
       = Some (BM25Okapi tokens_A 2 (1 / 2))
   \<and> snd (bm25_search corpus_A plain_normalizer bm25_init ''gato'' (12 / 10) (75 / 100) 10)
       = bm25_build_index corpus_A bm25_init"
proof -
  have h1: "process_query plain_normalizer ''gato'' \<noteq> []" by (simp add: process_query_gato)
  have h2: "bm25_index (bm25_build_index corpus_A bm25_init)
              = Some (BM25Okapi tokens_A (12 / 10) (75 / 100))"
    by (simp add: build_A)
  have ne: "(2::real) \<noteq> ix_k1 (BM25Okapi tokens_A (12 / 10) (75 / 100))"
    by (simp add: BM25Okapi_def)
  have eq: "(12 / 10 :: real) = ix_k1 (BM25Okapi tokens_A (12 / 10) (75 / 100))
          \<and> (75 / 100 :: real) = ix_b (BM25Okapi tokens_A (12 / 10) (75 / 100))"
    by (simp add: BM25Okapi_def)
  from bm25_index_matches_request[OF h1 h2, where ?k1.0 = 2 and b = "1 / 2" and top_k = 10] ne
  have a: "bm25_index (snd (bm25_search corpus_A plain_normalizer bm25_init ''gato'' 2 (1 / 2) 10))
       = Some (BM25Okapi tokens_A 2 (1 / 2))"
    by (auto simp: prepare_corpus_A)
  from bm25_index_matches_request[OF h1 h2, where ?k1.0 = "12 / 10" and b = "75 / 100" and top_k = 10] eq
  have b: "snd (bm25_search corpus_A plain_normalizer bm25_init ''gato'' (12 / 10) (75 / 100) 10)
       = bm25_build_index corpus_A bm25_init"
    by blast
  show ?thesis using h1 h2 a b by blast
qed

section \<open>Ranking: order, length and duplicates\<close>

lemma insort_key_stable_wrt:
  assumes "sorted_wrt (\<lambda>a b. f a < f b \<or> (f a = f b \<and> P a b)) ys"
    and "\<forall>y\<in>set ys. P x y"
  shows "sorted_wrt (\<lambda>a b. f a < f b \<or> (f a = f b \<and> P a b)) (insort_key f x ys)"
  using assms
proof (induction ys)
  case Nil
  then show ?case by simp
next
  case (Cons y ys)
  show ?case
  proof (cases "f x \<le> f y")
    case True
    have "\<forall>z\<in>set ys. f y \<le> f z" using Cons.prems(1) by auto
    then have "\<forall>z\<in>set (y # ys). f x < f z \<or> (f x = f z \<and> P x z)"
      using True Cons.prems(2) by (auto simp: less_le)
    then show ?thesis using True Cons.prems(1) by simp
  next
    case False
    then have "f y < f x" by simp
    moreover have "sorted_wrt (\<lambda>a b. f a < f b \<or> (f a = f b \<and> P a b)) (insort_key f x ys)"
      using Cons by simp
    ultimately show ?thesis using False Cons.prems(1) by (auto simp: set_insort_key)
  qed
qed

lemma sort_key_stable_wrt:
  "sorted_wrt P xs \<Longrightarrow>
   sorted_wrt (\<lambda>a b. f a < f b \<or> (f a = f b \<and> P a b)) (sort_key f xs)"
proof (induction xs)
  case Nil
  then show ?case by simp
next
  case (Cons x xs)
  then have "sorted_wrt (\<lambda>a b. f a < f b \<or> (f a = f b \<and> P a b)) (sort_key f xs)"
    and "\<forall>y\<in>set (sort_key f xs). P x y" by auto
  then show ?case using insort_key_stable_wrt[of f P "sort_key f xs" x] by simp
qed

lemma sort_desc_ranked:
  "sorted_wrt (\<lambda>a b. before (fst a) (fst b)) xs \<Longrightarrow>
   sorted_wrt (\<lambda>a b. snd a > snd b \<or> (snd a = snd b \<and> before (fst a) (fst b))) (sort_desc xs)"
  unfolding sort_desc_def
  using sort_key_stable_wrt[of "\<lambda>a b. before (fst a) (fst b)" xs "\<lambda>x. - snd x"]
  by (simp add: )

lemma set_sort_desc: "set (sort_desc xs) = set xs"
  by (simp add: sort_desc_def)

lemma length_sort_desc: "length (sort_desc xs) = length xs"
  by (simp add: sort_desc_def)

lemma distinct_sort_desc: "distinct (map fst (sort_desc xs)) = distinct (map fst xs)"
  by (simp add: sort_desc_def distinct_map)

lemma py_take_nonneg: "0 \<le> k \<Longrightarrow> py_take k xs = take (nat k) xs"
  by (simp add: py_take_def)

lemma result_of_proj [simp]:
  "r_id (result_of cm q qt doc_info d sc) = d" "score (result_of cm q qt doc_info d sc) = sc"
  by (simp_all add: result_of_def Let_def)

lemma make_results_subset:
  "r \<in> set (make_results cm q qt seen xs) \<Longrightarrow> (r_id r, score r) \<in> set xs \<and> r_id r \<notin> set seen"
proof (induction xs arbitrary: seen)
  case Nil
  then show ?case by simp
next
  case (Cons x xs)
  obtain d sc where x: "x = (d, sc)" by (cases x)
  show ?case using Cons.prems Cons.IH[of seen] Cons.IH[of "d # seen"] unfolding x
    by (auto split: if_splits option.splits)
qed

lemma make_results_length: "length (make_results cm q qt seen xs) \<le> length xs"
proof (induction xs arbitrary: seen)
  case Nil
  then show ?case by simp
next
  case (Cons x xs)
  obtain d sc where x: "x = (d, sc)" by (cases x)
  show ?case using Cons.IH[of seen] Cons.IH[of "d # seen"] unfolding x
    by (auto split: option.splits)
qed

lemma make_results_distinct: "distinct (map r_id (make_results cm q qt seen xs))"
proof (induction xs arbitrary: seen)
  case Nil
  then show ?case by simp
next
  case (Cons x xs)
  obtain d sc where x: "x = (d, sc)" by (cases x)
  have "\<And>r. r \<in> set (make_results cm q qt (d # seen) xs) \<Longrightarrow> r_id r \<noteq> d"
    using make_results_subset[of _ cm q qt "d # seen" xs] by auto
  then show ?case using Cons.IH[of seen] Cons.IH[of "d # seen"] unfolding x
    by (auto split: option.splits)
qed

lemma make_results_sorted:
  assumes "sorted_wrt (\<lambda>a b. R (fst a) (snd a) (fst b) (snd b)) xs"
  shows "sorted_wrt (\<lambda>r r'. R (r_id r) (score r) (r_id r') (score r')) (make_results cm q qt seen xs)"
  using assms
proof (induction xs arbitrary: seen)
  case Nil
  then show ?case by simp
next
  case (Cons x xs)
  obtain d sc where x: "x = (d, sc)" by (cases x)
  have "\<And>r. r \<in> set (make_results cm q qt (d # seen) xs) \<Longrightarrow> R d sc (r_id r) (score r)"
    using make_results_subset[of _ cm q qt "d # seen" xs] Cons.prems unfolding x by force
  then show ?case using Cons.IH[of seen] Cons.IH[of "d # seen"] Cons.prems unfolding x
    by (auto split: option.splits)
qed

lemma make_results_all:
  assumes "distinct (map fst xs)" and "set (map fst xs) \<inter> set seen = {}"
    and "\<forall>d\<in>set (map fst xs). get_document cm d \<noteq> None"
  shows "map (\<lambda>r. (r_id r, score r)) (make_results cm q qt seen xs) = xs"
  using assms
proof (induction xs arbitrary: seen)
  case Nil
  then show ?case by simp
next
  case (Cons x xs)
  obtain d sc where x: "x = (d, sc)" by (cases x)
  have "map (\<lambda>r. (r_id r, score r)) (make_results cm q qt (d # seen) xs) = xs"
    using Cons.prems unfolding x by (intro Cons.IH) auto
  then show ?case using Cons.prems unfolding x by (auto split: option.splits)
qed

lemma index_of_sorted:
  "distinct xs \<Longrightarrow> sorted_wrt (\<lambda>a b. index_of xs a < index_of xs b) xs"
proof (induction xs)
  case Nil
  then show ?case by simp
next
  case (Cons x xs)
  have ih: "sorted_wrt (\<lambda>a b. index_of xs a < index_of xs b) xs" using Cons by simp
  have "sorted_wrt (\<lambda>a b. index_of (x # xs) a < index_of (x # xs) b) xs"
    by (rule sorted_wrt_mono_rel[OF _ ih]) (use Cons.prems in auto)
  moreover have "\<forall>y\<in>set xs. index_of (x # xs) x < index_of (x # xs) y"
    using Cons.prems by auto
  ultimately show ?case by simp
qed

lemma short_sorted_wrt: "length xs \<le> 1 \<Longrightarrow> sorted_wrt P xs"
  by (cases xs) auto

lemma concat_keyed_sorted:
  assumes "sorted_wrt (\<lambda>a b. Q (fst a) (fst b)) xs"
    and "\<forall>x\<in>set xs. \<forall>y\<in>set (g x). fst y = fst x"
    and "\<forall>x\<in>set xs. length (g x) \<le> 1"
  shows "sorted_wrt (\<lambda>a b. Q (fst a) (fst b)) (concat (map g xs))"
  using assms
proof (induction xs)
  case Nil
  then show ?case by simp
next
  case (Cons x xs)
  have "sorted_wrt (\<lambda>a b. Q (fst a) (fst b)) (g x)"
    using Cons.prems(3) by (simp add: short_sorted_wrt)
  moreover have "sorted_wrt (\<lambda>a b. Q (fst a) (fst b)) (concat (map g xs))"
    using Cons by simp
  moreover have "\<forall>a\<in>set (g x). \<forall>b\<in>set (concat (map g xs)). Q (fst a) (fst b)"
    using Cons.prems(1,2) by fastforce
  ultimately show ?case by (simp add: sorted_wrt_append)
qed

lemma concat_keyed_length:
  "\<forall>x\<in>set xs. length (g x) \<le> 1 \<Longrightarrow> length (concat (map g xs)) \<le> length xs"
  by (induction xs) (auto simp: le_Suc_eq)

lemma similarities_sorted:
  assumes "distinct (keys index)"
  shows "sorted_wrt (\<lambda>a b. index_of (keys index) (fst a) < index_of (keys index) (fst b))
           (similarities_of index single qn qt)"
proof -
  have "sorted_wrt (\<lambda>a b. index_of (keys index) (fst a) < index_of (keys index) (fst b)) index"
    using index_of_sorted[OF assms] by (simp add: keys_def sorted_wrt_map)
  then show ?thesis
    unfolding similarities_of_def
    by (rule concat_keyed_sorted) (auto split: option.splits)
qed

lemma similarities_length: "length (similarities_of index single qn qt) \<le> length index"
  unfolding similarities_of_def
  by (rule concat_keyed_length) (auto split: option.splits)

lemma similarities_keys: "set (map fst (similarities_of index single qn qt)) \<subseteq> set (keys index)"
  unfolding similarities_of_def keys_def by (force split: option.splits if_splits)

lemma keys_compute_index: "keys (compute_tf_idf_index idf_map pt) = keys pt"
  by (induction pt) (auto simp: compute_tf_idf_index_def keys_def)

lemma build_index_keys:
  assumes "tfidf_ok cm st0"
  shows "keys (tf_idf_index (build_index cm st0)) = keys (processed_terms cm)"
proof (cases "is_indexed st0")
  case True
  then have "st0 = build_index cm tfidf_init" and ne: "processed_terms cm \<noteq> []"
    using assms by (simp_all add: tfidf_ok_def)
  then have "tf_idf_index st0 = compute_tf_idf_index (idf st0) (processed_terms cm)"
    by (simp add: build_index_def tfidf_init_def Let_def)
  then show ?thesis using True by (simp add: build_index_def keys_compute_index)
next
  case False
  then have "st0 = tfidf_init" using assms by (simp add: tfidf_ok_def)
  then show ?thesis
    by (simp add: build_index_def tfidf_init_def Let_def keys_compute_index) (simp add: keys_def)
qed

lemma sorted_wrt_py_take: "sorted_wrt P xs \<Longrightarrow> sorted_wrt P (py_take k xs)"
  by (simp add: py_take_def)

lemma length_py_take: "0 \<le> k \<Longrightarrow> length (py_take k xs) \<le> min (nat k) (length xs)"
  by (simp add: py_take_def)

lemma tfidf_ranking:
  assumes "is_dict (processed_terms cm)" and "tfidf_ok cm tst" and "0 \<le> top_k"
  shows "length (fst (tfidf_search cm p tst query tf_weight top_k))
           \<le> min (nat top_k)
                (case tfidf_similarities (build_index cm tst) (process_query p query) of
                   None \<Rightarrow> 0 | Some sims \<Rightarrow> length sims)"
    and "sorted_wrt (ranked (\<lambda>d d'. index_of (keys (processed_terms cm)) d
                                   < index_of (keys (processed_terms cm)) d'))
           (fst (tfidf_search cm p tst query tf_weight top_k))"
    and "distinct (map r_id (fst (tfidf_search cm p tst query tf_weight top_k)))"
proof -
  let ?st = "build_index cm tst"
  let ?before = "\<lambda>d d'. index_of (keys (processed_terms cm)) d < index_of (keys (processed_terms cm)) d'"
  show "distinct (map r_id (fst (tfidf_search cm p tst query tf_weight top_k)))"
    by (simp add: tfidf_search_def Let_def make_results_distinct split: option.splits)
  show "length (fst (tfidf_search cm p tst query tf_weight top_k))
           \<le> min (nat top_k)
                (case tfidf_similarities ?st (process_query p query) of
                   None \<Rightarrow> 0 | Some sims \<Rightarrow> length sims)"
  proof (cases "tfidf_similarities ?st (process_query p query)")
    case None
    then show ?thesis by (simp add: tfidf_search_def Let_def)
  next
    case (Some sims)
    have "length (make_results cm query (termos_encontrados ?st (process_query p query)) []
                   (py_take top_k (sort_desc sims)))
            \<le> length (py_take top_k (sort_desc sims))"
      by (rule make_results_length)
    also have "\<dots> \<le> min (nat top_k) (length sims)"
      using length_py_take[OF assms(3), of "sort_desc sims"] by (simp add: length_sort_desc)
    finally show ?thesis using Some by (simp add: tfidf_search_def Let_def)
  qed
  show "sorted_wrt (ranked ?before) (fst (tfidf_search cm p tst query tf_weight top_k))"
  proof (cases "tfidf_similarities ?st (process_query p query)")
    case None
    then show ?thesis by (simp add: tfidf_search_def Let_def)
  next
    case (Some sims)
    then obtain single qn qt where sims: "sims = similarities_of (tf_idf_index ?st) single qn qt"
      by (auto simp: tfidf_similarities_def Let_def split: if_splits)
    have k: "keys (tf_idf_index ?st) = keys (processed_terms cm)"
      by (rule build_index_keys[OF assms(2)])
    have "distinct (keys (tf_idf_index ?st))" using assms(1) k by (simp add: is_dict_def keys_def)
    from similarities_sorted[OF this, of single qn qt]
    have "sorted_wrt (\<lambda>a b. ?before (fst a) (fst b)) sims" unfolding sims k .
    then have "sorted_wrt (\<lambda>a b. snd a > snd b \<or> (snd a = snd b \<and> ?before (fst a) (fst b)))
                 (py_take top_k (sort_desc sims))"
      by (intro sorted_wrt_py_take sort_desc_ranked)
    then have "sorted_wrt (\<lambda>r r'. score r > score r' \<or> (score r = score r' \<and> ?before (r_id r) (r_id r')))
                 (make_results cm query (termos_encontrados ?st (process_query p query)) []
                   (py_take top_k (sort_desc sims)))"
      by (rule make_results_sorted[where R = "\<lambda>d s d' s'. s > s' \<or> (s = s' \<and> ?before d d')"])
    then show ?thesis using Some by (simp add: tfidf_search_def Let_def ranked_def[abs_def])
  qed
qed

lemma prepare_corpus_doc_ids:
  "doc_ids (snd (prepare_corpus cm st)) = sort (keys (processed_terms cm))"
  by (simp add: prepare_corpus_def Let_def)

lemma bm25_scoring_doc_ids:
  assumes "bm25_ok cm bst" and "bm25_index (bm25_build_index cm bst) = Some ix"
  shows "doc_ids (bm25_refresh cm (bm25_build_index cm bst) ix k1 b) = sort (keys (processed_terms cm))"
proof -
  have "doc_ids (bm25_build_index cm bst) = sort (keys (processed_terms cm))"
  proof (cases "bm_is_indexed bst")
    case True
    then show ?thesis using assms(1) by (simp add: bm25_ok_def bm25_build_index_def)
  next
    case False
    then show ?thesis
      by (simp add: bm25_build_index_def prepare_corpus_def Let_def)
  qed
  then show ?thesis
    by (simp add: bm25_refresh_def prepare_corpus_def Let_def)
qed

lemma doc_scores_sorted:
  assumes "is_dict (processed_terms cm)" and "doc_ids st = sort (keys (processed_terms cm))"
  shows "sorted_wrt (\<lambda>a b. fst a < fst b) (bm25_doc_scores st qt)"
proof (cases "bm25_index st")
  case None
  then show ?thesis by (simp add: bm25_doc_scores_def)
next
  case (Some ix)
  have "sorted_wrt (<) (doc_ids st)"
    using assms by (simp add: strict_sorted_iff is_dict_def keys_def)
  then have "sorted_wrt (<) (take (min (length (doc_ids st)) (length (get_scores ix qt))) (doc_ids st))"
    by (rule sorted_wrt_take)
  then have "sorted_wrt (<) (map fst (zip (doc_ids st) (get_scores ix qt)))"
    by (simp only: map_fst_zip_take)
  then have "sorted_wrt (\<lambda>a b. fst a < fst b) (zip (doc_ids st) (get_scores ix qt))"
    by (simp add: sorted_wrt_map)
  then show ?thesis using Some by (simp add: bm25_doc_scores_def sorted_wrt_filter)
qed

lemma bm25_ranking:
  assumes "is_dict (processed_terms cm)" and "bm25_ok cm bst" and "0 \<le> top_k"
  shows "length (fst (bm25_search cm p bst query k1 b top_k))
           \<le> min (nat top_k)
                (length (bm25_doc_scores (snd (bm25_search cm p bst query k1 b top_k))
                           (process_query p query)))"
    and "sorted_wrt (ranked (\<lambda>d d'. d < d')) (fst (bm25_search cm p bst query k1 b top_k))"
    and "distinct (map r_id (fst (bm25_search cm p bst query k1 b top_k)))"
proof -
  let ?st = "bm25_build_index cm bst"
  let ?qt = "process_query p query"
  show "distinct (map r_id (fst (bm25_search cm p bst query k1 b top_k)))"
    by (simp add: bm25_search_def Let_def make_results_distinct split: option.splits)
  consider (none) "bm25_index ?st = None \<or> ?qt = []"
    | (some) ix where "bm25_index ?st = Some ix" "?qt \<noteq> []"
    by (cases "bm25_index ?st") auto
  then have "length (fst (bm25_search cm p bst query k1 b top_k))
           \<le> min (nat top_k)
                (length (bm25_doc_scores (snd (bm25_search cm p bst query k1 b top_k)) ?qt))
      \<and> sorted_wrt (ranked (\<lambda>d d'. d < d')) (fst (bm25_search cm p bst query k1 b top_k))"
  proof cases
    case none
    then show ?thesis by (auto simp: bm25_search_def Let_def split: option.splits)
  next
    case some
    let ?st' = "bm25_refresh cm ?st ix k1 b"
    let ?ds = "bm25_doc_scores ?st' ?qt"
    have r: "bm25_search cm p bst query k1 b top_k
              = (make_results cm query ?qt [] (py_take top_k (sort_desc ?ds)), ?st')"
      using some by (simp add: bm25_search_def Let_def)
    have "length (make_results cm query ?qt [] (py_take top_k (sort_desc ?ds)))
            \<le> length (py_take top_k (sort_desc ?ds))"
      by (rule make_results_length)
    also have "\<dots> \<le> min (nat top_k) (length ?ds)"
      using length_py_take[OF assms(3), of "sort_desc ?ds"] by (simp add: length_sort_desc)
    finally have len: "length (make_results cm query ?qt [] (py_take top_k (sort_desc ?ds)))
            \<le> min (nat top_k) (length ?ds)" .
    have "sorted_wrt (\<lambda>a b. fst a < fst b) ?ds"
      by (rule doc_scores_sorted[OF assms(1) bm25_scoring_doc_ids[OF assms(2) some(1)]])
    then have "sorted_wrt (\<lambda>a b. snd a > snd b \<or> (snd a = snd b \<and> fst a < fst b))
                 (py_take top_k (sort_desc ?ds))"
      by (intro sorted_wrt_py_take sort_desc_ranked)
    then have "sorted_wrt (\<lambda>r r'. score r > score r' \<or> (score r = score r' \<and> r_id r < r_id r'))
                 (make_results cm query ?qt [] (py_take top_k (sort_desc ?ds)))"
      by (rule make_results_sorted[where R = "\<lambda>d s d' s'. s > s' \<or> (s = s' \<and> d < d')"])
    then show ?thesis using len by (simp add: r ranked_def[abs_def])
  qed
  then show "length (fst (bm25_search cm p bst query k1 b top_k))
           \<le> min (nat top_k)
                (length (bm25_doc_scores (snd (bm25_search cm p bst query k1 b top_k)) ?qt))"
    and "sorted_wrt (ranked (\<lambda>d d'. d < d')) (fst (bm25_search cm p bst query k1 b top_k))"
    by simp_all
qed

lemma keys_T: "keys (processed_terms corpus_T) = ids_T"
  by (simp add: corpus_T_def keys_def ids_T_def)

lemma sort_ids_T: "sort ids_T = sorted_ids_T"
  by (simp add: ids_T_def sorted_ids_T_def)

lemma prepare_corpus_T:
  "prepare_corpus corpus_T st = (tokens_T, st\<lparr>doc_ids := sorted_ids_T\<rparr>)"
  by (simp add: prepare_corpus_def keys_T sort_ids_T Let_def)
     (simp add: corpus_T_def sorted_ids_T_def ids_T_def dict_get_def tokens_T_def)

lemma idf_gato_T: "okapi_idf tokens_T ''gato'' = ln (17 / 2) - ln (5 / 2)"
proof -
  have n: "okapi_nd tokens_T ''gato'' = 2" by (simp add: okapi_nd_def tokens_T_def)
  have l: "length tokens_T = 10" by (simp add: tokens_T_def)
  have r: "okapi_raw_idf tokens_T ''gato'' = ln (17 / 2) - ln (5 / 2)"
    by (simp add: okapi_raw_idf_def n l)
  have "(5 / 2 :: real) < 17 / 2" by simp
  then have "ln (5 / 2 :: real) < ln (17 / 2)" by (subst ln_less_cancel_iff) simp_all
  then have pos: "\<not> okapi_raw_idf tokens_T ''gato'' < 0" using r by simp
  have v: "''gato'' \<in> set (remdups (concat tokens_T))" by (simp add: tokens_T_def)
  show ?thesis using pos v r by (simp add: okapi_idf_def Let_def)
qed

lemma idf_gato_T_pos: "0 < ln (17 / 2 :: real) - ln (5 / 2)"
proof -
  have "ln (5 / 2 :: real) < ln (17 / 2)" by (subst ln_less_cancel_iff) simp_all
  then show ?thesis by simp
qed

lemma scores_T:
  "get_scores \<lparr>ix_k1 = 6 / 5, ix_b = 3 / 4, ix_corpus = tokens_T\<rparr> [''gato''] =
     [0, ln (17 / 2) - ln (5 / 2), ln (17 / 2) - ln (5 / 2), 0, 0, 0, 0, 0, 0, 0]"
  by (simp add: get_scores_def Let_def idf_gato_T) (simp add: tokens_T_def)

lemma doc_scores_T:
  "bm25_doc_scores \<lparr>bm25_index = Some \<lparr>ix_k1 = 6 / 5, ix_b = 3 / 4, ix_corpus = tokens_T\<rparr>,
                     doc_ids = sorted_ids_T, bm_is_indexed = True\<rparr> [''gato''] =
     [(''doc_10'', ln (17 / 2) - ln (5 / 2)), (''doc_2'', ln (17 / 2) - ln (5 / 2))]"
  using idf_gato_T_pos by (simp add: bm25_doc_scores_def scores_T sorted_ids_T_def)

lemma bm25_T_results:
  "fst (bm25_search corpus_T plain_normalizer bm25_init ''gato'' (12 / 10) (75 / 100) 10)
     = [result_of corpus_T ''gato'' [''gato''] (mkdoc ''doc_10'') ''doc_10'' (ln (17 / 2) - ln (5 / 2)),
        result_of corpus_T ''gato'' [''gato''] (mkdoc ''doc_2'') ''doc_2'' (ln (17 / 2) - ln (5 / 2))]"
proof -
  have b: "bm25_build_index corpus_T bm25_init =
     \<lparr>bm25_index = Some \<lparr>ix_k1 = 6 / 5, ix_b = 3 / 4, ix_corpus = tokens_T\<rparr>,
      doc_ids = sorted_ids_T, bm_is_indexed = True\<rparr>"
    by (simp add: bm25_build_index_def prepare_corpus_T bm25_init_def BM25Okapi_def)
       (simp add: tokens_T_def)
  have g: "get_document corpus_T ''doc_10'' = Some (mkdoc ''doc_10'')"
       "get_document corpus_T ''doc_2'' = Some (mkdoc ''doc_2'')"
    by (simp_all add: get_document_def corpus_T_def ids_T_def mkdoc_def)
  have q: "process_query plain_normalizer ''gato'' = [''gato'']"
    by (simp add: process_query_def plain_normalizer_def split_def lower_def lower_char_def
      is_upper_def isspace_def normalize_term_def strip_def alphabet_def)
  show ?thesis
    by (simp add: bm25_search_def b q Let_def bm25_refresh_def)
       (simp add: doc_scores_T sort_desc_def py_take_def g)
qed

lemma tfidf_ok_init: "tfidf_ok cm tfidf_init"
  by (simp add: tfidf_ok_def tfidf_init_def)


lemma tfidf_ok_build: "tfidf_ok cm st \<Longrightarrow> tfidf_ok cm (build_index cm st)"
  by (auto simp: tfidf_ok_def build_index_def Let_def tfidf_init_def)

lemma tfidf_search_state: "snd (tfidf_search cm p st query tf_weight top_k) = build_index cm st"
  by (simp add: tfidf_search_def Let_def split: option.splits)

lemma tfidf_ok_preserved:
  "tfidf_ok cm st \<Longrightarrow> tfidf_ok cm (snd (tfidf_search cm p st query tf_weight top_k))"
  by (simp add: tfidf_search_state tfidf_ok_build)

lemma bm25_ok_init: "bm25_ok cm bm25_init"
  by (simp add: bm25_ok_def bm25_init_def)

lemma prepare_corpus_fst: "fst (prepare_corpus cm st) = fst (prepare_corpus cm st')"
  by (simp add: prepare_corpus_def Let_def)

lemma prepare_corpus_empty: "fst (prepare_corpus cm st) = [] \<longleftrightarrow> processed_terms cm = []"
proof -
  have "length (fst (prepare_corpus cm st)) = length (processed_terms cm)"
    by (simp add: prepare_corpus_def Let_def keys_def)
  then show ?thesis by (metis length_0_conv)
qed

lemma bm25_ok_build: "bm25_ok cm st \<Longrightarrow> bm25_ok cm (bm25_build_index cm st)"
proof (cases "bm_is_indexed st")
  case True
  then show "bm25_ok cm st \<Longrightarrow> ?thesis" by (simp add: bm25_build_index_def)
next
  case False
  assume "bm25_ok cm st"
  then have st: "st = bm25_init" using False by (simp add: bm25_ok_def)
  obtain c s where ps: "prepare_corpus cm st = (c, s)" by (cases "prepare_corpus cm st")
  have c: "c = fst (prepare_corpus cm st)" and s: "s = st\<lparr>doc_ids := sort (keys (processed_terms cm))\<rparr>"
    using ps by (auto simp: prepare_corpus_def Let_def)
  show ?thesis
  proof (cases "c = []")
    case True
    then have "processed_terms cm = []" using c prepare_corpus_empty by metis
    then show ?thesis using False ps True s st
      by (simp add: bm25_build_index_def bm25_ok_def bm25_init_def keys_def)
  next
    case False
    then have ne: "processed_terms cm \<noteq> []" using c prepare_corpus_empty by metis
    have "bm25_build_index cm st
            = s\<lparr>bm25_index := Some (BM25Okapi c (12 / 10) (75 / 100)), bm_is_indexed := True\<rparr>"
      using \<open>\<not> bm_is_indexed st\<close> ps False by (simp add: bm25_build_index_def)
    then show ?thesis using ne s c
      by (simp add: bm25_ok_def BM25Okapi_def prepare_corpus_def Let_def)
  qed
qed

lemma bm25_ok_refresh:
  "bm25_ok cm st \<Longrightarrow> bm25_index st = Some ix \<Longrightarrow> bm25_ok cm (bm25_refresh cm st ix k1 b)"
  by (auto simp: bm25_ok_def bm25_refresh_def prepare_corpus_def Let_def BM25Okapi_def
      bm25_init_def split: if_splits)

lemma bm25_ok_preserved:
  "bm25_ok cm st \<Longrightarrow> bm25_ok cm (snd (bm25_search cm p st query k1 b top_k))"
  using bm25_ok_build[of cm st] bm25_ok_refresh[of cm "bm25_build_index cm st"]
  by (auto simp: bm25_search_def Let_def split: option.splits)

lemma bm25_T_build:
  "bm25_build_index corpus_T bm25_init =
     \<lparr>bm25_index = Some \<lparr>ix_k1 = 6 / 5, ix_b = 3 / 4, ix_corpus = tokens_T\<rparr>,
      doc_ids = sorted_ids_T, bm_is_indexed = True\<rparr>"
  by (simp add: bm25_build_index_def prepare_corpus_T bm25_init_def BM25Okapi_def)
     (simp add: tokens_T_def)

lemma bm25_T_state:
  "snd (bm25_search corpus_T plain_normalizer bm25_init ''gato'' (12 / 10) (75 / 100) k)
     = \<lparr>bm25_index = Some \<lparr>ix_k1 = 6 / 5, ix_b = 3 / 4, ix_corpus = tokens_T\<rparr>,
        doc_ids = sorted_ids_T, bm_is_indexed = True\<rparr>"
  by (simp add: bm25_search_def bm25_T_build process_query_gato Let_def bm25_refresh_def)

lemma is_dict_T: "is_dict (processed_terms corpus_T)"
  by (simp add: is_dict_def corpus_T_def ids_T_def)

text \<open>
  C4 (as amended). For every query and every \<open>top_k\<close> that is not negative, on a corpus
  whose tables are a dictionary and services in a reachable state: each scorer returns at
  most \<open>min(top_k, number of documents with a score above 0)\<close> results, without a
  repeated document identifier, sorted by descending score. Between equal scores the
  TF-IDF scorer keeps the load order of the documents (the order of the tables), and the
  BM25 scorer the ascending order of the identifiers as strings, in which \<open>doc_10\<close>
  comes before \<open>doc_2\<close>.
\<close>

theorem ranking_contract:
  assumes "is_dict (processed_terms cm)" and "tfidf_ok cm tst" and "bm25_ok cm bst"
    and "0 \<le> top_k"
  shows "length (fst (tfidf_search cm p tst query tf_weight top_k))
           \<le> min (nat top_k)
                (case tfidf_similarities (build_index cm tst) (process_query p query) of
                   None \<Rightarrow> 0 | Some sims \<Rightarrow> length sims)
       \<and> sorted_wrt (ranked (\<lambda>d d'. index_of (keys (processed_terms cm)) d
                                   < index_of (keys (processed_terms cm)) d'))
           (fst (tfidf_search cm p tst query tf_weight top_k))
       \<and> distinct (map r_id (fst (tfidf_search cm p tst query tf_weight top_k)))
       \<and> length (fst (bm25_search cm p bst query k1 b top_k))
           \<le> min (nat top_k)
                (length (bm25_doc_scores (snd (bm25_search cm p bst query k1 b top_k))
                           (process_query p query)))
       \<and> sorted_wrt (ranked (\<lambda>d d'. d < d')) (fst (bm25_search cm p bst query k1 b top_k))
       \<and> distinct (map r_id (fst (bm25_search cm p bst query k1 b top_k)))"
  using tfidf_ranking[OF assms(1,2,4), of p query tf_weight]
    bm25_ranking[OF assms(1,3,4), of p query k1 b] by simp

theorem ranking_contract_witness:
  "is_dict (processed_terms corpus_T) \<and> tfidf_ok corpus_T tfidf_init \<and> bm25_ok corpus_T bm25_init
   \<and> (0::int) \<le> 10
   \<and> map r_id (fst (bm25_search corpus_T plain_normalizer bm25_init ''gato'' (12 / 10) (75 / 100) 10))
        = [''doc_10'', ''doc_2'']
   \<and> sorted_wrt (ranked (\<lambda>d d'. d < d'))
        (fst (bm25_search corpus_T plain_normalizer bm25_init ''gato'' (12 / 10) (75 / 100) 10))
   \<and> length (fst (bm25_search corpus_T plain_normalizer bm25_init ''gato'' (12 / 10) (75 / 100) 10))
        \<le> min (nat 10)
             (length (bm25_doc_scores
                (snd (bm25_search corpus_T plain_normalizer bm25_init ''gato'' (12 / 10) (75 / 100) 10))
                (process_query plain_normalizer ''gato'')))
   \<and> distinct (map r_id (fst (tfidf_search corpus_T plain_normalizer tfidf_init ''gato'' ''log'' 10)))"
proof -
  have h1: "is_dict (processed_terms corpus_T)" by (rule is_dict_T)
  have h2: "tfidf_ok corpus_T tfidf_init" by (rule tfidf_ok_init)
  have h3: "bm25_ok corpus_T bm25_init" by (rule bm25_ok_init)
  have h4: "(0::int) \<le> 10" by simp
  have ids: "map r_id (fst (bm25_search corpus_T plain_normalizer bm25_init ''gato'' (12 / 10) (75 / 100) 10))
        = [''doc_10'', ''doc_2'']"
    unfolding bm25_T_results by simp
  note t = ranking_contract[OF h1 h2 h3 h4, of plain_normalizer "''gato''" "''log''" "12 / 10" "75 / 100"]
  show ?thesis
    apply (intro conjI)
           apply (rule h1)
          apply (rule h2)
         apply (rule h3)
        apply (rule h4)
       apply (rule ids)
      apply (rule t[THEN conjunct2, THEN conjunct2, THEN conjunct2, THEN conjunct2, THEN conjunct1])
     apply (rule t[THEN conjunct2, THEN conjunct2, THEN conjunct2, THEN conjunct1])
    apply (rule t[THEN conjunct2, THEN conjunct2, THEN conjunct1])
    done
qed

text \<open>
  The claim as stated, ties in load order for both scorers, fails for BM25 on the corpus
  of ten documents: \<open>doc_10\<close> and \<open>doc_2\<close> score the same and \<open>doc_10\<close> is returned
  first.
\<close>

theorem bm25_tie_order_counterexample:
  "\<not> sorted_wrt (ranked (\<lambda>d d'. index_of (keys (processed_terms corpus_T)) d
                                < index_of (keys (processed_terms corpus_T)) d'))
       (fst (bm25_search corpus_T plain_normalizer bm25_init ''gato'' (12 / 10) (75 / 100) 10))"
  unfolding bm25_T_results keys_T by (simp add: ranked_def ids_T_def)

section \<open>The default \<open>top_k\<close>\<close>

lemma keyed_distinct:
  "sorted_wrt (\<lambda>a b. fst a \<noteq> fst b) xs \<Longrightarrow> distinct (map fst xs)"
  by (induction xs) auto

lemma similarities_distinct:
  assumes "distinct (keys index)"
  shows "distinct (map fst (similarities_of index single qn qt))"
proof -
  have "sorted_wrt (\<lambda>a b. fst a \<noteq> fst b) (similarities_of index single qn qt)"
    by (rule sorted_wrt_mono_rel[OF _ similarities_sorted[OF assms]]) auto
  then show ?thesis by (rule keyed_distinct)
qed

lemma doc_scores_distinct:
  assumes "is_dict (processed_terms cm)" and "doc_ids st = sort (keys (processed_terms cm))"
  shows "distinct (map fst (bm25_doc_scores st qt))"
proof -
  have "sorted_wrt (\<lambda>a b. fst a \<noteq> fst b) (bm25_doc_scores st qt)"
    by (rule sorted_wrt_mono_rel[OF _ doc_scores_sorted[OF assms]]) auto
  then show ?thesis by (rule keyed_distinct)
qed

lemma doc_scores_keys: "set (map fst (bm25_doc_scores st qt)) \<subseteq> set (doc_ids st)"
  by (auto simp: bm25_doc_scores_def split: option.splits dest: set_zip_leftD)

lemma doc_scores_length: "length (bm25_doc_scores st qt) \<le> length (doc_ids st)"
proof (cases "bm25_index st")
  case None
  then show ?thesis by (simp add: bm25_doc_scores_def)
next
  case (Some ix)
  have "length (filter (\<lambda>(d, s). s > 0) (zip (doc_ids st) (get_scores ix qt)))
          \<le> length (zip (doc_ids st) (get_scores ix qt))" by (rule length_filter_le)
  then show ?thesis using Some by (simp add: bm25_doc_scores_def)
qed

lemma corpus_ok_found:
  "corpus_ok cm \<Longrightarrow> d \<in> set (keys (processed_terms cm)) \<Longrightarrow> get_document cm d \<noteq> None"
  by (auto simp: corpus_ok_def get_document_def find_None_iff list_all_iff)

lemma corpus_ok_size:
  assumes "corpus_ok cm"
  shows "length (processed_terms cm) \<le> length (documents cm)"
proof -
  have d: "distinct (keys (processed_terms cm))"
    using assms by (simp add: corpus_ok_def is_dict_def keys_def)
  have "set (keys (processed_terms cm)) \<subseteq> set (map doc_id (documents cm))"
    using assms by (auto simp: corpus_ok_def list_all_iff)
  then have "card (set (keys (processed_terms cm))) \<le> card (set (map doc_id (documents cm)))"
    by (intro card_mono) auto
  also have "\<dots> \<le> length (map doc_id (documents cm))" by (rule card_length)
  finally have "card (set (keys (processed_terms cm))) \<le> length (documents cm)" by simp
  moreover have "card (set (keys (processed_terms cm))) = length (keys (processed_terms cm))"
    using d by (rule distinct_card)
  ultimately show ?thesis by (simp add: keys_def)
qed

lemma py_take_all: "length xs \<le> n \<Longrightarrow> py_take (int n) xs = xs"
  by (simp add: py_take_def)

lemma make_results_complete:
  assumes "corpus_ok cm" and "distinct (map fst xs)"
    and "set (map fst xs) \<subseteq> set (keys (processed_terms cm))"
    and "length xs \<le> length (processed_terms cm)"
  shows "map (\<lambda>r. (r_id r, score r))
           (make_results cm q qt [] (py_take (int (length (documents cm))) (sort_desc xs)))
         = sort_desc xs"
proof -
  have "length (sort_desc xs) \<le> length (documents cm)"
    using assms(4) corpus_ok_size[OF assms(1)] by (simp add: length_sort_desc)
  then have t: "py_take (int (length (documents cm))) (sort_desc xs) = sort_desc xs"
    by (rule py_take_all)
  have "\<forall>d\<in>set (map fst (sort_desc xs)). get_document cm d \<noteq> None"
    using assms(3) corpus_ok_found[OF assms(1)] by (auto simp: set_sort_desc)
  then show ?thesis unfolding t
    by (intro make_results_all) (simp_all add: distinct_sort_desc assms(2))
qed

lemma tfidf_all_returned:
  assumes "corpus_ok cm" and "tfidf_ok cm tst"
  shows "map (\<lambda>r. (r_id r, score r))
           (fst (tfidf_search cm p tst query tf_weight (int (length (documents cm)))))
         = (case tfidf_similarities (build_index cm tst) (process_query p query) of
              None \<Rightarrow> [] | Some sims \<Rightarrow> sort_desc sims)"
proof (cases "tfidf_similarities (build_index cm tst) (process_query p query)")
  case None
  then show ?thesis by (simp add: tfidf_search_def Let_def)
next
  case (Some sims)
  let ?st = "build_index cm tst"
  obtain single qn qt where sims: "sims = similarities_of (tf_idf_index ?st) single qn qt"
    using Some by (auto simp: tfidf_similarities_def Let_def split: if_splits)
  have k: "keys (tf_idf_index ?st) = keys (processed_terms cm)"
    by (rule build_index_keys[OF assms(2)])
  have d: "distinct (keys (tf_idf_index ?st))"
    using assms(1) k by (simp add: corpus_ok_def is_dict_def keys_def)
  have "length sims \<le> length (tf_idf_index ?st)" unfolding sims by (rule similarities_length)
  also have "\<dots> = length (processed_terms cm)"
    using k by (metis keys_def length_map)
  finally have l: "length sims \<le> length (processed_terms cm)" .
  have "map (\<lambda>r. (r_id r, score r))
           (make_results cm query (termos_encontrados ?st (process_query p query)) []
              (py_take (int (length (documents cm))) (sort_desc sims)))
         = sort_desc sims"
    using similarities_distinct[OF d, of single qn qt] similarities_keys[of "tf_idf_index ?st" single qn qt] l
    unfolding sims k by (intro make_results_complete[OF assms(1)])
  then show ?thesis using Some by (simp add: tfidf_search_def Let_def)
qed

lemma get_scores_no_terms: "filter (\<lambda>(d, s). s > 0) (zip ids (get_scores ix [])) = []"
  by (auto simp: get_scores_def Let_def filter_empty_conv dest: set_zip_rightD)

lemma bm25_all_returned:
  assumes "corpus_ok cm" and "bm25_ok cm bst"
  shows "map (\<lambda>r. (r_id r, score r))
           (fst (bm25_search cm p bst query k1 b (int (length (documents cm)))))
         = sort_desc (bm25_doc_scores (snd (bm25_search cm p bst query k1 b (int (length (documents cm)))))
                        (process_query p query))"
proof -
  let ?st = "bm25_build_index cm bst"
  let ?qt = "process_query p query"
  have dict: "is_dict (processed_terms cm)" using assms(1) by (simp add: corpus_ok_def)
  consider (none) "bm25_index ?st = None" | (empty) ix where "bm25_index ?st = Some ix" "?qt = []"
    | (some) ix where "bm25_index ?st = Some ix" "?qt \<noteq> []"
    by (cases "bm25_index ?st") auto
  then show ?thesis
  proof cases
    case none
    then show ?thesis by (simp add: bm25_search_def Let_def bm25_doc_scores_def sort_desc_def)
  next
    case empty
    then show ?thesis
      by (simp add: bm25_search_def Let_def bm25_doc_scores_def get_scores_no_terms sort_desc_def)
  next
    case some
    let ?st' = "bm25_refresh cm ?st ix k1 b"
    let ?ds = "bm25_doc_scores ?st' ?qt"
    have ids: "doc_ids ?st' = sort (keys (processed_terms cm))"
      by (rule bm25_scoring_doc_ids[OF assms(2) some(1)])
    have "length ?ds \<le> length (doc_ids ?st')" by (rule doc_scores_length)
    then have l: "length ?ds \<le> length (processed_terms cm)" by (simp add: ids keys_def)
    have s: "set (map fst ?ds) \<subseteq> set (keys (processed_terms cm))"
      using doc_scores_keys[of ?st' ?qt] by (simp add: ids)
    have "map (\<lambda>r. (r_id r, score r))
            (make_results cm query ?qt [] (py_take (int (length (documents cm))) (sort_desc ?ds)))
          = sort_desc ?ds"
      by (rule make_results_complete[OF assms(1) doc_scores_distinct[OF dict ids] s l])
    then show ?thesis using some by (simp add: bm25_search_def Let_def)
  qed
qed

lemma corpus_ok_T: "corpus_ok corpus_T"
  by (simp add: corpus_ok_def is_dict_T keys_T) (simp add: corpus_T_def ids_T_def mkdoc_def)

text \<open>
  C10. When \<open>top_k\<close> is \<open>None\<close> the orchestrator passes the number of documents of the
  corpus to both scorers, and on a loaded corpus nothing is cut off: the TF-IDF results
  are all the documents with a similarity above 0, and the BM25 results all the documents
  with a score above 0, each list in ranked order.
\<close>

theorem default_top_k_returns_all:
  assumes "corpus_ok (corpus_manager svc)"
    and "tfidf_ok (corpus_manager svc) (tfidf_service svc)"
    and "bm25_ok (corpus_manager svc) (bm25_service svc)"
  shows "map (\<lambda>r. (r_id r, score r)) (tfidf (fst (search svc clock query k1 b tf_weight None)))
           = (case tfidf_similarities (build_index (corpus_manager svc) (tfidf_service svc))
                     (process_query (preprocessing (corpus_manager svc)) query) of
                None \<Rightarrow> [] | Some sims \<Rightarrow> sort_desc sims)
       \<and> map (\<lambda>r. (r_id r, score r)) (bm25 (fst (search svc clock query k1 b tf_weight None)))
           = sort_desc (bm25_doc_scores (bm25_service (snd (search svc clock query k1 b tf_weight None)))
                          (process_query (preprocessing (corpus_manager svc)) query))"
proof (cases "process_query (preprocessing (corpus_manager svc)) query = []")
  case True
  have "bm25_doc_scores (bm25_service svc) [] = []"
    by (simp add: bm25_doc_scores_def get_scores_no_terms split: option.splits)
  then show ?thesis using True
    by (simp add: search_def Let_def tfidf_similarities_def sort_desc_def)
next
  case False
  then show ?thesis
    using tfidf_all_returned[OF assms(1,2)] bm25_all_returned[OF assms(1,3)]
    by (simp add: search_def Let_def get_all_documents_def)
qed

theorem default_top_k_returns_all_witness:
  "corpus_ok (corpus_manager service_T)
   \<and> tfidf_ok (corpus_manager service_T) (tfidf_service service_T)
   \<and> bm25_ok (corpus_manager service_T) (bm25_service service_T)
   \<and> map (\<lambda>r. (r_id r, score r))
        (bm25 (fst (search service_T (\<lambda>n. real n) ''gato'' (12 / 10) (75 / 100) ''log'' None)))
       = [(''doc_10'', ln (17 / 2) - ln (5 / 2)), (''doc_2'', ln (17 / 2) - ln (5 / 2))]"
proof -
  have h1: "corpus_ok (corpus_manager service_T)" by (simp add: service_T_def corpus_ok_T)
  have h2: "tfidf_ok (corpus_manager service_T) (tfidf_service service_T)"
    by (simp add: service_T_def tfidf_ok_init)
  have h3: "bm25_ok (corpus_manager service_T) (bm25_service service_T)"
    by (simp add: service_T_def bm25_ok_init)
  have q: "process_query (preprocessing (corpus_manager service_T)) ''gato'' = [''gato'']"
    by (simp add: service_T_def corpus_T_def process_query_gato)
  have len: "int (length (get_all_documents corpus_T)) = 10"
    by (simp add: get_all_documents_def corpus_T_def ids_T_def)
  have st: "bm25_service (snd (search service_T (\<lambda>n. real n) ''gato'' (12 / 10) (75 / 100) ''log'' None))
      = snd (bm25_search corpus_T plain_normalizer bm25_init ''gato'' (12 / 10) (75 / 100) 10)"
    using q len by (simp add: search_def Let_def service_T_def) (simp add: corpus_T_def)
  have "sort_desc [(''doc_10'', ln (17 / 2) - ln (5 / 2)), (''doc_2'', ln (17 / 2) - ln (5 / 2))]
      = [(''doc_10'', ln (17 / 2) - ln (5 / 2)), (''doc_2'', ln (17 / 2) - ln (5 / 2 :: real))]"
    by (simp add: sort_desc_def)
  then have "sort_desc (bm25_doc_scores
               (bm25_service (snd (search service_T (\<lambda>n. real n) ''gato'' (12 / 10) (75 / 100) ''log'' None)))
               (process_query (preprocessing (corpus_manager service_T)) ''gato''))
      = [(''doc_10'', ln (17 / 2) - ln (5 / 2)), (''doc_2'', ln (17 / 2) - ln (5 / 2))]"
    unfolding st bm25_T_state q doc_scores_T by simp
  with default_top_k_returns_all[OF h1 h2 h3, of "\<lambda>n. real n" "''gato''" "12 / 10" "75 / 100" "''log''"]
  show ?thesis using h1 h2 h3 by simp
qed

section \<open>TF-IDF scores\<close>



















subsection \<open>Scenario A, evaluated\<close>

lemma df_A: "compute_df (processed_terms corpus_A) = [(''gato'', 2), (''casa'', 2), (''rua'', 1)]"
  by (simp add: compute_df_def corpus_A_def dict_values_def keys_def dict_set_def dict_get_def)

lemma idf_A:
  "idf (build_index corpus_A tfidf_init)
     = [(''gato'', log 10 (5 / 2)), (''casa'', log 10 (5 / 2)), (''rua'', log 10 4)]"
proof -
  have l: "length (processed_terms corpus_A) = 3" by (simp add: corpus_A_def)
  have ne: "processed_terms corpus_A \<noteq> []" by (simp add: corpus_A_def)
  have ni: "\<not> is_indexed tfidf_init" by (simp add: tfidf_init_def)
  show ?thesis
    unfolding build_index_idf(1)[OF ne ni] l df_A by (simp add: compute_idf_def)
qed

lemma index_A:
  "tf_idf_index (build_index corpus_A tfidf_init)
     = [(''doc_1'', [(''gato'', tf_log 5 * log 10 (5 / 2)), (''casa'', tf_log 2 * log 10 (5 / 2))]),
        (''doc_2'', [(''gato'', tf_log 1 * log 10 (5 / 2)), (''rua'', tf_log 1 * log 10 4)]),
        (''doc_3'', [(''casa'', tf_log 1 * log 10 (5 / 2))])]"
proof -
  have ne: "processed_terms corpus_A \<noteq> []" by (simp add: corpus_A_def)
  have ni: "\<not> is_indexed tfidf_init" by (simp add: tfidf_init_def)
  show ?thesis
    unfolding build_index_idf(2)[OF ne ni] idf_A
    by (simp add: compute_tf_idf_index_def corpus_A_def dict_get_def)
qed

lemma L_pos: "0 < log 10 (5 / 2 :: real)" by simp

lemma tf_log_ge1: "0 < c \<Longrightarrow> 1 \<le> tf_log c"
  by (simp add: tf_log_def)

lemma tf_log_1: "tf_log 1 = 1" by (simp add: tf_log_def)

lemma found_gato:
  "termos_encontrados (build_index corpus_A tfidf_init) [''gato''] = [''gato'']"
  by (simp add: termos_encontrados_def idf_A keys_def)

lemma qv_gato:
  "query_tfidf_values (idf (build_index corpus_A tfidf_init)) [''gato''] = [log 10 (5 / 2)]"
  by (simp add: query_tfidf_values_def idf_A count_term_def dict_set_def dict_get_def Let_def)

lemma sims_gato:
  "tfidf_similarities (build_index corpus_A tfidf_init) [''gato'']
     = Some [(''doc_1'', tf_log 5 * log 10 (5 / 2)), (''doc_2'', log 10 (5 / 2))]"
proof -
  have n: "norm2 [log 10 (5 / 2)] = log 10 (5 / 2)"
    using L_pos by (simp add: norm2_def)
  have a: "0 < tf_log 5 * log 10 (5 / 2)"
    using tf_log_ge1[of 5] L_pos by simp
  have nz: "log 10 (5 / 2 :: real) \<noteq> 0" using L_pos by linarith
  show ?thesis
    unfolding tfidf_similarities_def found_gato qv_gato Let_def
    using L_pos a nz
    by (simp add: n similarities_of_def index_A similarity_of_def doc_vector_of_def dict_get_def
        tf_log_1)
qed

lemma sorted_gato:
  "sort_desc [(''doc_1'', tf_log 5 * log 10 (5 / 2)), (''doc_2'', log 10 (5 / 2))]
     = [(''doc_1'', tf_log 5 * log 10 (5 / 2)), (''doc_2'', log 10 (5 / 2))]"
proof -
  have "1 * log 10 (5 / 2) \<le> tf_log 5 * log 10 (5 / 2 :: real)"
    using tf_log_ge1[of 5] L_pos by (intro mult_right_mono) simp_all
  then show ?thesis by (simp add: sort_desc_def)
qed

lemma tfidf_A_gato:
  "fst (tfidf_search corpus_A plain_normalizer tfidf_init ''gato'' ''log'' 5)
     = [result_of corpus_A ''gato'' [''gato''] (mkdoc ''doc_1'') ''doc_1'' (tf_log 5 * log 10 (5 / 2)),
        result_of corpus_A ''gato'' [''gato''] (mkdoc ''doc_2'') ''doc_2'' (log 10 (5 / 2))]"
proof -
  have g: "get_document corpus_A ''doc_1'' = Some (mkdoc ''doc_1'')"
       "get_document corpus_A ''doc_2'' = Some (mkdoc ''doc_2'')"
    by (simp_all add: get_document_def corpus_A_def mkdoc_def)
  show ?thesis
    unfolding tfidf_search_def Let_def process_query_gato sims_gato found_gato
    by (simp add: py_take_def sorted_gato g)
qed






lemma similarities_of_Cons:
  "similarities_of ((d, w) # index) single qn qt
     = (case similarity_of single qn (doc_vector_of w qt) of
          None \<Rightarrow> []
        | Some similarity \<Rightarrow> (if similarity > 0 then [(d, similarity)] else []))
       @ similarities_of index single qn qt"
  by (simp add: similarities_of_def)






section \<open>A query term typed twice\<close>

lemma process_query_gato_gato: "process_query plain_normalizer ''gato gato'' = [''gato'', ''gato'']"
  by (simp add: process_query_def plain_normalizer_def split_def lower_def lower_char_def
      is_upper_def isspace_def normalize_term_def strip_def alphabet_def)

lemma found_gato_gato:
  "termos_encontrados (build_index corpus_A tfidf_init) [''gato'', ''gato''] = [''gato'', ''gato'']"
  by (simp add: termos_encontrados_def idf_A keys_def)

lemma qv_gato_gato:
  "query_tfidf_values (idf (build_index corpus_A tfidf_init)) [''gato'', ''gato'']
     = [(1 + log 10 2) * log 10 (5 / 2), (1 + log 10 2) * log 10 (5 / 2)]"
  by (simp add: query_tfidf_values_def idf_A count_term_def dict_set_def dict_get_def Let_def)

lemma norm2_twice: "0 < a \<Longrightarrow> norm2 [a, a] = sqrt 2 * a"
proof -
  assume a: "0 < a"
  have "a * a + a * a = 2 * (a * a)" by simp
  then have "norm2 [a, a] = sqrt (2 * (a * a))" by (simp add: norm2_def)
  also have "\<dots> = sqrt 2 * sqrt (a * a)" by (rule real_sqrt_mult)
  also have "\<dots> = sqrt 2 * a" using a by simp
  finally show ?thesis .
qed

lemma cosine_twice:
  assumes "0 < a" and "0 < q"
  shows "dot (map (\<lambda>x. x / norm2 [a, a]) [a, a]) (map (\<lambda>x. x / norm2 [q, q]) [q, q]) = 1"
proof -
  have "a / (sqrt 2 * a) = 1 / sqrt 2" using assms(1) by simp
  moreover have "q / (sqrt 2 * q) = 1 / sqrt 2" using assms(2) by simp
  moreover have "(1 / sqrt 2) * (1 / sqrt 2) = (1 / 2 :: real)"
    by (simp add: field_simps)
  ultimately show ?thesis
    by (simp add: dot_def norm2_twice[OF assms(1)] norm2_twice[OF assms(2)])
qed

lemma sims_gato_gato:
  "tfidf_similarities (build_index corpus_A tfidf_init) [''gato'', ''gato'']
     = Some [(''doc_1'', 1), (''doc_2'', 1)]"
proof -
  let ?L = "log 10 (5 / 2 :: real)"
  let ?q = "(1 + log 10 2) * ?L"
  have "0 < 1 + log 10 (2 :: real)" by (simp add: add_pos_nonneg)
  then have q: "0 < ?q" using L_pos by (rule mult_pos_pos)
  have a: "0 < tf_log 5 * ?L" using tf_log_ge1[of 5] L_pos by simp
  have nq: "0 < norm2 [?q, ?q]" using q by (simp add: norm2_twice)
  have s: "?q + ?q \<noteq> 0" using q by linarith
  have d1: "similarity_of False (map (\<lambda>x. x / norm2 [?q, ?q]) [?q, ?q]) [tf_log 5 * ?L, tf_log 5 * ?L]
              = Some 1"
    using a cosine_twice[OF a q] by (simp add: similarity_of_def Let_def norm2_twice[OF a])
  have d2: "similarity_of False (map (\<lambda>x. x / norm2 [?q, ?q]) [?q, ?q]) [?L, ?L] = Some 1"
    using L_pos cosine_twice[OF L_pos q] by (simp add: similarity_of_def Let_def norm2_twice[OF L_pos])
  have d3: "similarity_of False (map (\<lambda>x. x / norm2 [?q, ?q]) [?q, ?q]) [0, 0] = None"
    by (simp add: similarity_of_def)
  have v1: "doc_vector_of [(''gato'', tf_log 5 * ?L), (''casa'', tf_log 2 * ?L)] [''gato'', ''gato'']
              = [tf_log 5 * ?L, tf_log 5 * ?L]"
    and v2: "doc_vector_of [(''gato'', tf_log 1 * ?L), (''rua'', tf_log 1 * log 10 4)] [''gato'', ''gato'']
              = [?L, ?L]"
    and v3: "doc_vector_of [(''casa'', tf_log 1 * ?L)] [''gato'', ''gato''] = [0, 0]"
    by (simp_all add: doc_vector_of_def dict_get_def tf_log_1)
  have "similarities_of (tf_idf_index (build_index corpus_A tfidf_init)) False
          (map (\<lambda>x. x / norm2 [?q, ?q]) [?q, ?q]) [''gato'', ''gato'']
        = [(''doc_1'', 1), (''doc_2'', 1)]"
    unfolding index_A similarities_of_Cons v1 v2 v3 d1 d2 d3
    by (simp add: similarities_of_def)
  then show ?thesis
    unfolding tfidf_similarities_def found_gato_gato qv_gato_gato Let_def
    using s nq by simp
qed

lemma tfidf_A_gato_gato:
  "fst (tfidf_search corpus_A plain_normalizer tfidf_init ''gato gato'' ''log'' 5)
     = [result_of corpus_A ''gato gato'' [''gato'', ''gato''] (mkdoc ''doc_1'') ''doc_1'' 1,
        result_of corpus_A ''gato gato'' [''gato'', ''gato''] (mkdoc ''doc_2'') ''doc_2'' 1]"
proof -
  have g: "get_document corpus_A ''doc_1'' = Some (mkdoc ''doc_1'')"
       "get_document corpus_A ''doc_2'' = Some (mkdoc ''doc_2'')"
    by (simp_all add: get_document_def corpus_A_def mkdoc_def)
  show ?thesis
    unfolding tfidf_search_def Let_def process_query_gato_gato sims_gato_gato found_gato_gato
    by (simp add: py_take_def sort_desc_def g)
qed

text \<open>
  C2 (evaluation at the failing input). On the corpus of scenario A the query
  \<open>gato gato\<close> gets a query vector of two coordinates, is not treated as a query of one
  term, and both documents that hold \<open>gato\<close> score exactly 1; the deduplicated query
  \<open>gato\<close> has one coordinate and the raw weights \<open>(1 + log10 5) * idf\<close> and \<open>idf\<close> as
  scores.
\<close>

theorem duplicate_query_term_changes_scores:
  "process_query plain_normalizer ''gato gato'' = [''gato'', ''gato'']
   \<and> process_query plain_normalizer ''gato'' = [''gato'']
   \<and> length (query_tfidf_values (idf (build_index corpus_A tfidf_init))
               (termos_encontrados (build_index corpus_A tfidf_init) [''gato'', ''gato''])) = 2
   \<and> length (query_tfidf_values (idf (build_index corpus_A tfidf_init))
               (termos_encontrados (build_index corpus_A tfidf_init) [''gato''])) = 1
   \<and> map (\<lambda>r. (r_id r, score r))
        (fst (tfidf_search corpus_A plain_normalizer tfidf_init ''gato gato'' ''log'' 5))
       = [(''doc_1'', 1), (''doc_2'', 1)]
   \<and> map (\<lambda>r. (r_id r, score r))
        (fst (tfidf_search corpus_A plain_normalizer tfidf_init ''gato'' ''log'' 5))
       = [(''doc_1'', tf_log 5 * log 10 (5 / 2)), (''doc_2'', log 10 (5 / 2))]
   \<and> log 10 (5 / 2) < (1 :: real)"
proof -
  have "log 10 (5 / 2) < (1 :: real)" by simp
  then show ?thesis
    unfolding tfidf_A_gato_gato tfidf_A_gato found_gato_gato found_gato qv_gato_gato qv_gato
    by (simp add: process_query_gato_gato process_query_gato)
qed

section \<open>Documents and queries through the normalizer\<close>

text \<open>
  C6 (evaluation at the failing input). Without spaCy, \<open>process_text\<close> replaces a
  character outside the alphabet by a space before it splits, and \<open>process_query\<close>
  splits first and then deletes such a character: the word \<open>guarda-chuva\<close> is indexed as
  the two terms \<open>guarda\<close> and \<open>chuva\<close> and queried as the one term \<open>guardachuva\<close>,
  which is no term of the document.
\<close>

theorem query_and_document_terms_differ:
  "process_text plain_normalizer ''guarda-chuva'' = [(''guarda'', 1), (''chuva'', 1)]
   \<and> process_query plain_normalizer ''guarda-chuva'' = [''guardachuva'']
   \<and> set (process_query plain_normalizer ''guarda-chuva'')
        \<inter> set (keys (process_text plain_normalizer ''guarda-chuva'')) = {}"
proof -
  have t: "process_text plain_normalizer ''guarda-chuva'' = [(''guarda'', 1), (''chuva'', 1)]"
    by (simp add: process_text_def plain_normalizer_def clean_text_def collapse_ws_def split_def
        lower_def lower_char_def is_upper_def isspace_def normalize_term_def strip_def
        alphabet_def count_term_def dict_set_def dict_get_def Let_def)
  have q: "process_query plain_normalizer ''guarda-chuva'' = [''guardachuva'']"
    by (simp add: process_query_def plain_normalizer_def split_def lower_def lower_char_def
        is_upper_def isspace_def normalize_term_def strip_def alphabet_def)
  show ?thesis unfolding t q by (simp add: keys_def)
qed

section \<open>Snippets\<close>

text \<open>
  C8 (evaluation at the failing input). When nothing matches and the text has no space
  from \<open>context_length\<close> on, the text is cut at \<open>context_length\<close>, inside a word:
  \<open>aaaa bbbbbbbb\<close> with \<open>context_length = 6\<close> gives \<open>aaaa b...\<close>; the same on the
  path without terms. Only the space character counts: a text with a line break at index
  3 and a space at index 6 is cut at the space for \<open>context_length = 2\<close>.
\<close>

theorem snippet_fallback_splits_word:
  "extract_snippet ''aaaa bbbbbbbb'' [''zzz''] 6 (Some ''zzz'') = (''aaaa b...'', [])
   \<and> find_space ''aaaa bbbbbbbb'' 6 = None
   \<and> extract_snippet ''abcdefghij'' [] 5 None = (''abcde...'', [])
   \<and> extract_snippet [CHR ''a'', CHR ''a'', CHR ''a'', CHR 0x0A, CHR ''b'', CHR ''b'', CHR 0x20,
                        CHR ''c''] [''zzz''] 2 (Some ''zzz'')
       = ([CHR ''a'', CHR ''a'', CHR ''a'', CHR 0x0A, CHR ''b'', CHR ''b'', CHR ''.'', CHR ''.'',
           CHR ''.''], [])"
  by code_simp

text \<open>
  C9 (evaluation at the failing input). The bounds of the length filter are the integer
  parts of 0.7 and 1.3 times the length of the query word, so for the five letters of
  \<open>ratos\<close> a word of three letters (60 percent) passes: in \<open>O rat fugiu de casa\<close> no
  whole word is \<open>ratos\<close>, the fuzzy pass compares \<open>rat\<close>, finds the ratio 3/4 and
  returns it as the match.
\<close>

theorem fuzzy_length_filter_admits_short_word:
  "extract_snippet ''O rat fugiu de casa'' [''rat''] 250 (Some ''ratos'')
     = (''O rat fugiu de casa'', [''rat'', ''ratos''])
   \<and> search_word ''ratos'' (lower ''O rat fugiu de casa'') = None
   \<and> best_fuzzy_match (fuzzy_pass (lower ''O rat fugiu de casa'') [''ratos'']) = Some (2, ''rat'')
   \<and> seq_ratio ''ratos'' ''rat'' = 3 / 4
   \<and> 10 * length ''rat'' < 7 * length ''ratos''"
proof -
  have a: "extract_snippet ''O rat fugiu de casa'' [''rat''] 250 (Some ''ratos'')
     = (''O rat fugiu de casa'', [''rat'', ''ratos''])"
    by code_simp
  have b: "search_word ''ratos'' (lower ''O rat fugiu de casa'') = None"
    by code_simp
  have c: "best_fuzzy_match (fuzzy_pass (lower ''O rat fugiu de casa'') [''ratos''])
             = Some (2, ''rat'')"
    by code_simp
  have m: "matching_size ''ratos'' ''rat'' = 3" by code_simp
  have d: "seq_ratio ''ratos'' ''rat'' = 3 / 4" unfolding seq_ratio_def m by simp
  show ?thesis using a b c d by simp
qed

end
